theory Spec2Isabelle
  imports Complex_Main "HOL-Library.Word"
begin

section \<open>Errors and tensors\<close>

text \<open>
  The script \<^verbatim>\<open>inference.py\<close> is glue over PyTorch, torchvision, NumPy and OpenCV.
  Every raise of the Python code is a value of \<open>error\<close>; a computation that may raise
  returns \<open>error + 'a\<close>, with \<open>Inl\<close> the exception.

  Floating-point numbers are modelled as mathematical reals. Rounding is written out in
  one place, the softmax of \<open>inference\<close>, where a statement depends on it; infinities
  and NaN are outside this development.
\<close>

datatype error =
  IndexError | TypeError | ValueError | RuntimeError | CvError | FileNotFoundError | KeyError

definition bindE :: "error + 'a \<Rightarrow> ('a \<Rightarrow> error + 'b) \<Rightarrow> error + 'b" where
  "bindE r f = (case r of Inl e \<Rightarrow> Inl e | Inr a \<Rightarrow> f a)"

text \<open>
  A torch tensor and a NumPy array are n-dimensional arrays whose rank is only known at
  run time: \<open>Sc v\<close> is a 0-d array, \<open>Tn ts\<close> holds the slices along dimension 0.
  Arrays with a dimension of length 0 lose their trailing dimensions in this
  representation; the theorems below are about arrays whose dimensions are positive.
\<close>

datatype tensor = Sc real | Tn "tensor list"

type_synonym ndarray = tensor

fun tmap :: "(real \<Rightarrow> real) \<Rightarrow> tensor \<Rightarrow> tensor" where
  "tmap f (Sc v) = Sc (f v)"
| "tmap f (Tn ts) = Tn (map (tmap f) ts)"

fun elems :: "tensor \<Rightarrow> real list" where
  "elems (Sc v) = [v]"
| "elems (Tn ts) = concat (map elems ts)"

fun shape :: "tensor \<Rightarrow> nat list" where
  "shape (Sc v) = []"
| "shape (Tn []) = [0]"
| "shape (Tn (t # ts)) = Suc (length ts) # shape t"

fun has_shape :: "nat list \<Rightarrow> tensor \<Rightarrow> bool" where
  "has_shape [] (Sc v) = True"
| "has_shape (n # ns) (Tn ts) = (length ts = n \<and> list_all (has_shape ns) ts)"
| "has_shape [] (Tn ts) = False"
| "has_shape (n # ns) (Sc v) = False"

fun sub :: "tensor \<Rightarrow> nat \<Rightarrow> tensor" where
  "sub (Tn ts) i = ts ! i"
| "sub (Sc v) i = Sc v"

section \<open>denormalize\<close>

definition MEAN :: "real list" where
  "MEAN = [0.485, 0.456, 0.406]"

definition STD :: "real list" where
  "STD = [0.229, 0.224, 0.225]"

text \<open>
  \<^verbatim>\<open>for t, m, s in zip(x, mean, std): t.mul_(s).add_(m)\<close>:
  iterating a tensor yields its slices along dimension 0, whatever that dimension is;
  \<open>zip\<close> stops at the shortest of the three sequences, and the slices beyond it are
  left as they are.
\<close>

fun mul_add_loop :: "tensor list \<Rightarrow> real list \<Rightarrow> real list \<Rightarrow> tensor list" where
  "mul_add_loop (t # ts) (m # ms) (s # ss) = tmap (\<lambda>v. v * s + m) t # mul_add_loop ts ms ss"
| "mul_add_loop ts ms ss = ts"

definition clamp :: "tensor \<Rightarrow> real \<Rightarrow> real \<Rightarrow> tensor" where
  "clamp x lo hi = tmap (\<lambda>v. min (max v lo) hi) x"

fun denormalize :: "tensor \<Rightarrow> real list \<Rightarrow> real list \<Rightarrow> error + tensor" where
  "denormalize (Sc v) mean std = Inl TypeError"
| "denormalize (Tn ts) mean std = Inr (clamp (Tn (mul_add_loop ts mean std)) 0 1)"

section \<open>annotate_image\<close>

text \<open>\<^verbatim>\<open>image.squeeze(0)\<close>: dimension 0 is dropped when its length is 1.\<close>

fun squeeze0 :: "tensor \<Rightarrow> tensor" where
  "squeeze0 (Tn [t]) = t"
| "squeeze0 t = t"

definition ndim :: "tensor \<Rightarrow> nat" where
  "ndim t = length (shape t)"

text \<open>
  \<^verbatim>\<open>.permute((1, 2, 0))\<close>: the result has \<open>result[i][j][k] = x[k][i][j]\<close>; torch raises
  when the number of dimensions is not the length of the permutation.
\<close>

definition permute_120 :: "tensor \<Rightarrow> error + tensor" where
  "permute_120 x =
     (if ndim x \<noteq> 3 then Inl RuntimeError
      else Inr (Tn (map (\<lambda>i. Tn (map (\<lambda>j. Tn (map (\<lambda>k. sub (sub (sub x k) i) j)
                  [0..<shape x ! 0])) [0..<shape x ! 2])) [0..<shape x ! 1])))"

fun map_slices :: "(tensor \<Rightarrow> tensor) \<Rightarrow> tensor \<Rightarrow> tensor" where
  "map_slices f (Tn ts) = Tn (map f ts)"
| "map_slices f (Sc v) = Sc v"

text \<open>
  \<^verbatim>\<open>cv2.cvtColor(image, cv2.COLOR_RGB2BGR)\<close> on a height-width-channel array: the
  first and third channel change places (a fourth channel is dropped); OpenCV raises for
  an array that is not an image of 3 or 4 channels.
\<close>

fun swap_rb :: "tensor \<Rightarrow> tensor" where
  "swap_rb (Tn (r # g # b # rest)) = Tn [b, g, r]"
| "swap_rb p = p"

definition cvtColor_RGB2BGR :: "ndarray \<Rightarrow> error + ndarray" where
  "cvtColor_RGB2BGR src =
     (if ndim src = 3 \<and> (shape src ! 2 = 3 \<or> shape src ! 2 = 4)
      then Inr (map_slices (map_slices swap_rb) src)
      else Inl CvError)"

text \<open>\<^verbatim>\<open>CLASS_NAMES[int(output_class)]\<close>: indexing of a Python list.\<close>

definition getitem :: "'a list \<Rightarrow> int \<Rightarrow> error + 'a" where
  "getitem xs i =
     (if 0 \<le> i \<and> i < int (length xs) then Inr (xs ! nat i)
      else if i < 0 \<and> - int (length xs) \<le> i then Inr (xs ! nat (int (length xs) + i))
      else Inl IndexError)"

text \<open>
  \<^verbatim>\<open>cv2.putText(image, class_name, (5, 25), cv2.FONT_HERSHEY_SIMPLEX, 0.7, (0, 0, 255), 2,
  lineType=cv2.LINE_AA)\<close> writes into the array it is given. Which pixels the strokes of
  the Hershey glyphs cover is OpenCV's business: it is the parameter \<open>raster\<close>, a
  predicate on the text, its origin, the font scale, the thickness, and the pixel's row
  and column. On an array that is not 8-bit OpenCV draws without blending, so a covered
  pixel receives the colour as it is, one component per channel (a colour is padded
  with zeros to four components), and every other pixel is left as it was.
\<close>

type_synonym raster = "string \<Rightarrow> nat \<times> nat \<Rightarrow> real \<Rightarrow> nat \<Rightarrow> nat \<Rightarrow> nat \<Rightarrow> bool"

fun paint :: "real list \<Rightarrow> tensor \<Rightarrow> tensor" where
  "paint color (Tn cs) = Tn (map Sc (take (length cs) (color @ replicate (4 - length color) 0)))"
| "paint color (Sc v) = Sc v"

fun draw_row :: "(nat \<Rightarrow> bool) \<Rightarrow> real list \<Rightarrow> tensor \<Rightarrow> tensor" where
  "draw_row covered color (Tn ps) =
     Tn (map (\<lambda>(j, p). if covered j then paint color p else p) (zip [0..<length ps] ps))"
| "draw_row covered color (Sc v) = Sc v"

fun putText :: "raster \<Rightarrow> ndarray \<Rightarrow> string \<Rightarrow> nat \<times> nat \<Rightarrow> real \<Rightarrow> real list \<Rightarrow> nat \<Rightarrow> ndarray" where
  "putText raster (Tn rows) txt org fontScale color thickness =
     Tn (map (\<lambda>(i, row). draw_row (raster txt org fontScale thickness i) color row)
          (zip [0..<length rows] rows))"
| "putText raster (Sc v) txt org fontScale color thickness = Sc v"

text \<open>
  \<open>CLASS_NAMES\<close> is the table of the module \<^verbatim>\<open>class_names\<close>, which is not part of
  the script: it is a parameter. \<^verbatim>\<open>.cpu()\<close>, \<^verbatim>\<open>.numpy()\<close> and
  \<^verbatim>\<open>np.ascontiguousarray(image, dtype=np.float32)\<close> do not change a value.
\<close>

definition annotate_image :: "string list \<Rightarrow> raster \<Rightarrow> tensor \<Rightarrow> int \<Rightarrow> error + ndarray" where
  "annotate_image CLASS_NAMES raster img output_class =
     bindE (denormalize img MEAN STD) (\<lambda>img.
     bindE (permute_120 (squeeze0 img)) (\<lambda>img.
     bindE (cvtColor_RGB2BGR img) (\<lambda>img.
     bindE (getitem CLASS_NAMES output_class) (\<lambda>class_name.
     Inr (putText raster img class_name (5, 25) 0.7 [0, 0, 255] 2)))))"

section \<open>inference\<close>

text \<open>
  The network is the external collaborator: a function from a batch of images to one
  row of raw class scores per img, which may raise. \<^verbatim>\<open>model.eval()\<close>,
  \<^verbatim>\<open>torch.no_grad()\<close> and the moves between devices do not change a value.
\<close>

type_synonym model = "tensor \<Rightarrow> error + real list list"

text \<open>
  \<^verbatim>\<open>F.softmax(outputs, dim=1)\<close> works in the tensor's own number format, float32.
  Whether two scores keep their order as probabilities depends on its rounding, so here
  the rounding is written out: every operation returns the float32 nearest to its exact
  result, a tie going to the even neighbour. (A float32 has a significand of 24 bits;
  its exponent range, and with it overflow and subnormal numbers, is not modelled.)
\<close>

definition round_to_even :: "real \<Rightarrow> int" where
  "round_to_even q =
     (if q - of_int \<lfloor>q\<rfloor> < 1 / 2 then \<lfloor>q\<rfloor>
      else if 1 / 2 < q - of_int \<lfloor>q\<rfloor> then \<lfloor>q\<rfloor> + 1
      else if even \<lfloor>q\<rfloor> then \<lfloor>q\<rfloor> else \<lfloor>q\<rfloor> + 1)"

definition float32_round :: "real \<Rightarrow> real" where
  "float32_round x =
     (if x = 0 then 0
      else sgn x * of_int (round_to_even (\<bar>x\<bar> / 2 powr (of_int \<lfloor>log 2 \<bar>x\<bar>\<rfloor> - 23)))
             * 2 powr (of_int \<lfloor>log 2 \<bar>x\<bar>\<rfloor> - 23))"

text \<open>
  The library subtracts the largest score of the row before it exponentiates, adds the
  exponentials up, and divides each of them by the sum.
\<close>

fun softmax_row :: "real list \<Rightarrow> real list" where
  "softmax_row [] = []"
| "softmax_row (x # xs) =
     (let m = fold max xs x;
          es = map (\<lambda>v. float32_round (exp (float32_round (v - m)))) (x # xs);
          s = foldl (\<lambda>acc e. float32_round (acc + e)) 0 es
      in map (\<lambda>e. float32_round (e / s)) es)"

definition softmax_dim1 :: "real list list \<Rightarrow> real list list" where
  "softmax_dim1 outputs = map softmax_row outputs"

text \<open>
  \<^verbatim>\<open>np.argmax(predictions)\<close> with no axis: the index, in the flattened array, of the
  first occurrence of the maximum; NumPy raises on an empty array.
\<close>

fun argmax_loop :: "real list \<Rightarrow> nat \<Rightarrow> real \<Rightarrow> nat \<Rightarrow> nat" where
  "argmax_loop [] i mp mi = mi"
| "argmax_loop (v # vs) i mp mi =
     (if v > mp then argmax_loop vs (Suc i) v i else argmax_loop vs (Suc i) mp mi)"

definition argmax_flat :: "real list \<Rightarrow> error + nat" where
  "argmax_flat a = (case a of [] \<Rightarrow> Inl ValueError | v # vs \<Rightarrow> Inr (argmax_loop vs 1 v 0))"

definition np_argmax :: "real list list \<Rightarrow> error + nat" where
  "np_argmax a = argmax_flat (concat a)"

definition inference :: "string list \<Rightarrow> raster \<Rightarrow> model \<Rightarrow> tensor \<Rightarrow> error + ndarray" where
  "inference CLASS_NAMES raster model testloader =
     (let img = testloader in
      bindE (model img) (\<lambda>outputs.
      let predictions = softmax_dim1 outputs in
      bindE (np_argmax predictions) (\<lambda>output_class.
      annotate_image CLASS_NAMES raster img (int output_class))))"

section \<open>get_test_transform\<close>

text \<open>
  The transform receives what \<^verbatim>\<open>cv2.imread\<close> and \<^verbatim>\<open>cv2.cvtColor\<close> produce: an array
  of bytes in height-width-channel layout. The torchvision transforms are library code;
  each is modelled on the kind of value it receives in this pipeline.
\<close>

type_synonym u8 = "8 word"

type_synonym u8_array = "u8 list list list"

definition arr_width :: "u8_array \<Rightarrow> nat" where
  "arr_width a = (case a of [] \<Rightarrow> 0 | row # rows \<Rightarrow> length row)"

definition arr_channels :: "u8_array \<Rightarrow> nat" where
  "arr_channels a = (case a of [] \<Rightarrow> 0 | row # rows \<Rightarrow> (case row of [] \<Rightarrow> 0 | p # ps \<Rightarrow> length p))"

text \<open>A PIL image: its number of bands (3 in mode RGB), its size and its pixels.\<close>

record pil_image =
  pil_bands :: nat
  pil_width :: nat
  pil_height :: nat
  pil_px :: "nat \<Rightarrow> nat \<Rightarrow> nat \<Rightarrow> u8"

text \<open>\<^verbatim>\<open>transforms.ToPILImage()\<close> raises for an array of more than four channels.\<close>

definition ToPILImage :: "u8_array \<Rightarrow> error + pil_image" where
  "ToPILImage pic =
     (if arr_channels pic > 4 \<or> arr_channels pic = 0 then Inl ValueError
      else Inr \<lparr>pil_bands = arr_channels pic, pil_width = arr_width pic, pil_height = length pic,
                pil_px = (\<lambda>i j c. pic ! i ! j ! c)\<rparr>)"

text \<open>
  \<^verbatim>\<open>transforms.Resize((image_size, image_size))\<close>: with a pair as its size the result
  has exactly that height and width, whatever the proportions of the input. The
  interpolation is PIL's: the parameter \<open>resample\<close> gives the byte of a band at a pixel
  of the resized image.
\<close>

type_synonym resampler = "pil_image \<Rightarrow> nat \<times> nat \<Rightarrow> nat \<Rightarrow> nat \<Rightarrow> nat \<Rightarrow> u8"

definition Resize :: "resampler \<Rightarrow> nat \<times> nat \<Rightarrow> pil_image \<Rightarrow> error + pil_image" where
  "Resize resample size2 pic =
     (if fst size2 = 0 \<or> snd size2 = 0 then Inl ValueError
      else Inr \<lparr>pil_bands = pil_bands pic, pil_width = snd size2, pil_height = fst size2,
                pil_px = resample pic size2\<rparr>)"

text \<open>
  \<^verbatim>\<open>transforms.CenterCrop(224)\<close>: an image smaller than the crop is first padded with
  zeros, \<open>(crop - size) // 2\<close> before and \<open>(crop - size + 1) // 2\<close> after; the crop
  starts at \<open>int(round((size - crop) / 2.0))\<close>, and Python rounds a half to the even
  neighbour.
\<close>

definition pad :: "pil_image \<Rightarrow> nat \<Rightarrow> nat \<Rightarrow> nat \<Rightarrow> nat \<Rightarrow> pil_image" where
  "pad pic pad_left pad_top pad_right pad_bottom =
     \<lparr>pil_bands = pil_bands pic,
      pil_width = pil_width pic + pad_left + pad_right,
      pil_height = pil_height pic + pad_top + pad_bottom,
      pil_px = (\<lambda>i j c. if pad_top \<le> i \<and> i < pad_top + pil_height pic \<and>
                            pad_left \<le> j \<and> j < pad_left + pil_width pic
                         then pil_px pic (i - pad_top) (j - pad_left) c else 0)\<rparr>"

definition crop :: "pil_image \<Rightarrow> nat \<Rightarrow> nat \<Rightarrow> nat \<Rightarrow> nat \<Rightarrow> pil_image" where
  "crop pic crop_top crop_left h w =
     \<lparr>pil_bands = pil_bands pic, pil_width = w, pil_height = h,
      pil_px = (\<lambda>i j c. if crop_top + i < pil_height pic \<and> crop_left + j < pil_width pic
                         then pil_px pic (crop_top + i) (crop_left + j) c else 0)\<rparr>"

definition round_half :: "nat \<Rightarrow> nat" where
  "round_half n = (if even n then n div 2 else if even (n div 2) then n div 2 else n div 2 + 1)"

definition CenterCrop :: "nat \<Rightarrow> pil_image \<Rightarrow> pil_image" where
  "CenterCrop output_size pic =
     (let crop_height = output_size; crop_width = output_size in
      if crop_width > pil_width pic \<or> crop_height > pil_height pic then
        (let padded = pad pic
               (if crop_width > pil_width pic then (crop_width - pil_width pic) div 2 else 0)
               (if crop_height > pil_height pic then (crop_height - pil_height pic) div 2 else 0)
               (if crop_width > pil_width pic then (crop_width - pil_width pic + 1) div 2 else 0)
               (if crop_height > pil_height pic then (crop_height - pil_height pic + 1) div 2 else 0)
         in if crop_width = pil_width padded \<and> crop_height = pil_height padded then padded
            else crop padded (round_half (pil_height padded - crop_height))
                   (round_half (pil_width padded - crop_width)) crop_height crop_width)
      else crop pic (round_half (pil_height pic - crop_height))
             (round_half (pil_width pic - crop_width)) crop_height crop_width)"

text \<open>
  \<^verbatim>\<open>transforms.ToTensor()\<close>: a channel-first tensor of the bytes divided by 255.
\<close>

definition ToTensor :: "pil_image \<Rightarrow> tensor" where
  "ToTensor pic =
     Tn (map (\<lambda>c. Tn (map (\<lambda>i. Tn (map (\<lambda>j. Sc (real (unat (pil_px pic i j c)) / 255))
           [0..<pil_width pic])) [0..<pil_height pic])) [0..<pil_bands pic])"

text \<open>
  \<^verbatim>\<open>transforms.Normalize(mean, std)\<close>: \<open>(value - mean[c]) / std[c]\<close> on the channel
  dimension, which is the third from the end; a batch dimension in front is mapped over.
  It raises for a tensor of fewer than three dimensions (a \<^verbatim>\<open>TypeError\<close> below two)
  and for a zero in \<open>std\<close>; a list of one number stands for every channel, and any
  other length must be the number of channels.
\<close>

definition broadcast :: "real list \<Rightarrow> nat \<Rightarrow> real list" where
  "broadcast xs n = (if length xs = 1 then replicate n (hd xs) else xs)"

fun normalize_at :: "nat \<Rightarrow> real list \<Rightarrow> real list \<Rightarrow> tensor \<Rightarrow> tensor" where
  "normalize_at 0 mean std (Tn cs) =
     Tn (map (\<lambda>(c, m, s). tmap (\<lambda>v. (v - m) / s) c) (zip cs (zip mean std)))"
| "normalize_at (Suc d) mean std (Tn ts) = Tn (map (normalize_at d mean std) ts)"
| "normalize_at d mean std (Sc v) = Sc v"

definition Normalize :: "real list \<Rightarrow> real list \<Rightarrow> tensor \<Rightarrow> error + tensor" where
  "Normalize mean std t =
     (if ndim t < 2 then Inl TypeError
      else if ndim t < 3 then Inl ValueError
      else if list_ex (\<lambda>s. s = 0) std then Inl ValueError
      else (let channels = shape t ! (ndim t - 3) in
            if length (broadcast mean channels) = channels \<and> length (broadcast std channels) = channels
            then Inr (normalize_at (ndim t - 3) (broadcast mean channels) (broadcast std channels) t)
            else Inl RuntimeError))"

definition IMAGE_RESIZE :: nat where
  "IMAGE_RESIZE = 256"

definition get_test_transform :: "resampler \<Rightarrow> nat \<Rightarrow> u8_array \<Rightarrow> error + tensor" where
  "get_test_transform resample image_size pic =
     bindE (ToPILImage pic) (\<lambda>pic.
     bindE (Resize resample (image_size, image_size) pic) (\<lambda>pic.
     Normalize [0.485, 0.456, 0.406] [0.229, 0.224, 0.225] (ToTensor (CenterCrop 224 pic))))"

section \<open>The driver\<close>

text \<open>
  What the script reads from outside itself is the environment: the checkpoint file
  (\<^verbatim>\<open>torch.load\<close>, which raises when the file cannot be read), the network behind
  \<^verbatim>\<open>build_model\<close> and \<^verbatim>\<open>load_state_dict\<close>, the file system's answer to
  \<^verbatim>\<open>glob.glob\<close>, the image files (\<^verbatim>\<open>cv2.imread\<close> returns \<^verbatim>\<open>None\<close> for a file it
  cannot decode), the interpolation and the glyph raster of the libraries, and the table
  of class names.
\<close>

record ('net, 'sd) env =
  torch_load :: "string \<Rightarrow> error + (string \<rightharpoonup> 'sd)"
  build_model :: "bool \<Rightarrow> nat \<Rightarrow> 'net"
  load_state_dict :: "'net \<Rightarrow> 'sd \<Rightarrow> error + model"
  glob_glob :: "string \<Rightarrow> string list"
  cv2_imread :: "string \<Rightarrow> u8_array option"
  pil_resample :: resampler
  cv2_raster :: raster
  class_names :: "string list"

record args =
  args_weights :: string
  args_input :: string

text \<open>
  What the script does to the outside is the world: the directories it has made, the
  numbers of the progress lines it has printed, the images it has shown and the files
  it has written, in order. \<open>inference_calls\<close> counts the calls of \<open>inference\<close>.
\<close>

record world =
  made_dirs :: "string list"
  printed :: "nat list"
  shown :: "ndarray list"
  written :: "(string \<times> ndarray) list"
  inference_calls :: nat

definition path_join :: "string \<Rightarrow> string \<Rightarrow> string" where
  "path_join a b =
     (if b \<noteq> [] \<and> hd b = CHR ''/'' then b
      else if a = [] \<or> last a = CHR ''/'' then a @ b
      else a @ ''/'' @ b)"

text \<open>\<^verbatim>\<open>image_path.split(os.path.sep)[-1]\<close>: what follows the last separator.\<close>

definition last_component :: "string \<Rightarrow> string" where
  "last_component path = rev (takeWhile (\<lambda>c. c \<noteq> CHR ''/'') (rev path))"

definition cvtColor_BGR2RGB :: "u8_array \<Rightarrow> error + u8_array" where
  "cvtColor_BGR2RGB src =
     (if arr_channels src = 3 \<or> arr_channels src = 4
      then Inr (map (map (\<lambda>p. [p ! 2, p ! 1, p ! 0])) src)
      else Inl CvError)"

definition unsqueeze0 :: "tensor \<Rightarrow> tensor" where
  "unsqueeze0 t = Tn [t]"

definition load_image :: "('net, 'sd) env \<Rightarrow> string \<Rightarrow> error + tensor" where
  "load_image env image_path =
     bindE (case cv2_imread env image_path of None \<Rightarrow> Inl CvError | Some bgr \<Rightarrow> cvtColor_BGR2RGB bgr) (\<lambda>img.
     bindE (get_test_transform (pil_resample env) IMAGE_RESIZE img) (\<lambda>img.
     Inr (unsqueeze0 img)))"

text \<open>
  The loop over the matched paths. An exception ends the run where it is raised: the
  world is what had been done until then, together with the error.
\<close>

fun process_images ::
  "('net, 'sd) env \<Rightarrow> model \<Rightarrow> string \<Rightarrow> nat \<Rightarrow> string list \<Rightarrow> world \<Rightarrow> world \<times> error option" where
  "process_images env model infer_result_path i [] w = (w, None)"
| "process_images env model infer_result_path i (image_path # rest) w =
     (let w = w\<lparr>printed := printed w @ [i + 1]\<rparr> in
      case load_image env image_path of
        Inl e \<Rightarrow> (w, Some e)
      | Inr img \<Rightarrow>
          (let w = w\<lparr>inference_calls := Suc (inference_calls w)\<rparr> in
           case inference (class_names env) (cv2_raster env) model img of
             Inl e \<Rightarrow> (w, Some e)
           | Inr result \<Rightarrow>
               (let image_name = last_component image_path;
                    w = w\<lparr>shown := shown w @ [result]\<rparr>;
                    w = w\<lparr>written := written w @
                          [(path_join infer_result_path image_name, tmap (\<lambda>v. v * 255) result)]\<rparr>
                in process_images env model infer_result_path (Suc i) rest w)))"

definition driver :: "('net, 'sd) env \<Rightarrow> args \<Rightarrow> world \<Rightarrow> world \<times> error option" where
  "driver env args w =
     (let weights_path = args_weights args;
          infer_result_path =
            path_join (path_join (path_join ''..'' ''outputs'') ''inference_results'') ''image_outputs'';
          w = w\<lparr>made_dirs := made_dirs w @ [infer_result_path]\<rparr>
      in case torch_load env weights_path of
           Inl e \<Rightarrow> (w, Some e)
         | Inr checkpoint \<Rightarrow>
             (let net = build_model env False (length (class_names env)) in
              case checkpoint ''model_state_dict'' of
                None \<Rightarrow> (w, Some KeyError)
              | Some sd \<Rightarrow>
                  (case load_state_dict env net sd of
                     Inl e \<Rightarrow> (w, Some e)
                   | Inr model \<Rightarrow>
                       (let all_image_paths = glob_glob env (path_join (args_input args) ''*.jpg'')
                        in process_images env model infer_result_path 0 all_image_paths w))))"

section \<open>Auxiliary definitions\<close>

text \<open>
  The array on which \<open>annotate_image\<close> draws, written out by index from the
  channel-first tensor \<open>t\<close>: pixel \<open>(i, j)\<close> holds channels 2, 1 and 0 of \<open>t\<close>.
\<close>

definition bgr_pixels :: "nat \<Rightarrow> nat \<Rightarrow> tensor \<Rightarrow> tensor" where
  "bgr_pixels h w t =
     Tn (map (\<lambda>i. Tn (map (\<lambda>j. Tn [sub (sub (sub t 2) i) j, sub (sub (sub t 1) i) j,
        sub (sub (sub t 0) i) j]) [0..<w])) [0..<h])"

text \<open>
  \<^verbatim>\<open>result[i, j, k]\<close> on what a call returned: the error, if the call raised.
\<close>

definition read_pixel :: "error + ndarray \<Rightarrow> nat \<Rightarrow> nat \<Rightarrow> nat \<Rightarrow> error + tensor" where
  "read_pixel r i j k = bindE r (\<lambda>a. Inr (sub (sub (sub a i) j) k))"

text \<open>
  Concrete inputs at which the theorems are instantiated: a black image of the size the
  transform produces, with its batch dimension; a table of two class names; a raster
  that covers the one pixel in row 20, column 10; and a raster that covers that pixel
  for the second class name and nothing for any other text.
\<close>

definition black_image :: tensor where
  "black_image = Tn [Tn (replicate 3 (Tn (replicate 224 (Tn (replicate 224 (Sc 0))))))]"

definition example_names :: "string list" where
  "example_names = [''squat'', ''plank'']"

definition example_raster :: raster where
  "example_raster txt org fontScale thickness i j = (i = 20 \<and> j = 10)"

definition plank_raster :: raster where
  "plank_raster txt org fontScale thickness i j = (txt = ''plank'' \<and> i = 20 \<and> j = 10)"

text \<open>
  What the specification means by an arg-max, with NumPy's rule for ties: \<open>k\<close> is an
  index of \<open>xs\<close>, no entry is larger than the one at \<open>k\<close>, and every entry before
  \<open>k\<close> is smaller.
\<close>

definition is_argmax :: "real list \<Rightarrow> nat \<Rightarrow> bool" where
  "is_argmax xs k \<longleftrightarrow>
     k < length xs \<and> list_all (\<lambda>j. xs ! j \<le> xs ! k) [0..<length xs] \<and>
     list_all (\<lambda>j. xs ! j < xs ! k) [0..<k]"

text \<open>
  Further concrete inputs: a network that returns the scores 0 and 1 for every batch,
  a row of two scores that float32 tells apart and its softmax does not, and an image of
  one black pixel, alone and as a batch of one.
\<close>

definition example_model :: model where
  "example_model t = Inr [[0, 1]]"

definition near_tied_scores :: "real list" where
  "near_tied_scores = [0, 1 / 2 ^ 27]"

definition black_pixel :: tensor where
  "black_pixel = Tn [Tn [Tn [Sc 0]], Tn [Tn [Sc 0]], Tn [Tn [Sc 0]]]"

definition black_pixel_batch :: tensor where
  "black_pixel_batch = Tn [black_pixel]"

text \<open>
  An array of one row of two pixels, as \<^verbatim>\<open>cv2.imread\<close> could return it; a resampler
  that picks the nearest pixel; an environment with a readable checkpoint at the default
  weights path and an input directory in which nothing matches; and the world before
  the script has run.
\<close>

definition example_photo :: u8_array where
  "example_photo = [[[10, 20, 30], [40, 50, 60]]]"

definition example_resample :: resampler where
  "example_resample pic size2 i j c =
     pil_px pic (i * pil_height pic div fst size2) (j * pil_width pic div snd size2) c"

definition example_env :: "(unit, unit) env" where
  "example_env =
     \<lparr>torch_load = (\<lambda>path. if path = ''../outputs/best_model.pth''
                        then Inr [''model_state_dict'' \<mapsto> ()] else Inl FileNotFoundError),
      build_model = (\<lambda>fine_tune num_classes. ()),
      load_state_dict = (\<lambda>net sd. Inr example_model),
      glob_glob = (\<lambda>pattern. []),
      cv2_imread = (\<lambda>path. None),
      pil_resample = example_resample,
      cv2_raster = example_raster,
      class_names = example_names\<rparr>"

definition example_args :: args where
  "example_args = \<lparr>args_weights = ''../outputs/best_model.pth'', args_input = ''empty_dir''\<rparr>"

definition initial_world :: world where
  "initial_world = \<lparr>made_dirs = [], printed = [], shown = [], written = [], inference_calls = 0\<rparr>"

section \<open>Tensors: shapes and elements\<close>

lemma has_shape_Cons_iff:
  "has_shape (n # ns) t \<longleftrightarrow> (\<exists>ts. t = Tn ts \<and> length ts = n \<and> (\<forall>u\<in>set ts. has_shape ns u))"
  by (cases t) (auto simp: list_all_iff)

lemma has_shape_Nil_iff: "has_shape [] t \<longleftrightarrow> (\<exists>v. t = Sc v)"
  by (cases t) auto

lemma tmap_comp: "tmap f (tmap g t) = tmap (\<lambda>v. f (g v)) t"
  by (induction t) auto

lemma elems_tmap: "elems (tmap f t) = map f (elems t)"
  by (induction t) (auto simp: map_concat intro!: arg_cong[where f=concat])

lemma tmap_cong_elems: "(\<And>v. v \<in> set (elems t) \<Longrightarrow> f v = g v) \<Longrightarrow> tmap f t = tmap g t"
  by (induction t) auto

lemma has_shape_tmap: "has_shape ns (tmap f t) = has_shape ns t"
proof (induction ns t rule: has_shape.induct)
  case (2 n ns ts)
  then show ?case by (auto simp: list_all_iff)
qed auto

lemma shape_of_has_shape: "has_shape ns t \<Longrightarrow> \<forall>n\<in>set ns. 0 < n \<Longrightarrow> shape t = ns"
proof (induction ns t rule: has_shape.induct)
  case (2 n ns ts)
  then show ?case by (cases ts) (auto simp: list_all_iff)
qed auto

lemma has_shape_sub: "has_shape (n # ns) t \<Longrightarrow> k < n \<Longrightarrow> has_shape ns (sub t k)"
  by (auto simp: has_shape_Cons_iff)

lemma elems_sub: "has_shape (n # ns) t \<Longrightarrow> k < n \<Longrightarrow> set (elems (sub t k)) \<subseteq> set (elems t)"
  using nth_mem by (fastforce simp: has_shape_Cons_iff)

section \<open>Properties of annotate_image\<close>

lemma denormalize_batch_of_one:
  "denormalize (Tn [t]) MEAN STD = Inr (Tn [tmap (\<lambda>v. min (max (v * 0.229 + 0.485) 0) 1) t])"
  by (simp add: MEAN_def STD_def clamp_def tmap_comp)

lemma permute_then_cvtColor:
  assumes "has_shape [3, h, w] t" "0 < h" "0 < w"
  shows "\<exists>p. permute_120 t = Inr p \<and> cvtColor_RGB2BGR p = Inr (bgr_pixels h w t)"
proof -
  have sh: "shape t = [3, h, w]"
    using assms by (simp add: shape_of_has_shape)
  define p where "p = Tn (map (\<lambda>i. Tn (map (\<lambda>j. Tn (map (\<lambda>k. sub (sub (sub t k) i) j) [0..<3])) [0..<w])) [0..<h])"
  have perm: "permute_120 t = Inr p"
    by (simp add: permute_120_def ndim_def sh p_def)
  have "has_shape [] (sub (sub (sub t k) i) j)" if "k < 3" "i < h" "j < w" for k i j
    using assms(1) that by (intro has_shape_sub)
  then have "has_shape [h, w, 3] p"
    by (simp add: p_def list_all_iff)
  then have shp: "shape p = [h, w, 3]"
    using assms by (simp add: shape_of_has_shape)
  have up: "[0..<3] = [0, 1, 2]"
    by (simp add: upt_rec)
  have "cvtColor_RGB2BGR p = Inr (bgr_pixels h w t)"
    by (simp add: cvtColor_RGB2BGR_def ndim_def shp) (simp add: p_def bgr_pixels_def up)
  with perm show ?thesis
    by blast
qed


lemma paint_bgr_red:
  "has_shape [3] p \<Longrightarrow> paint [0, 0, 255] p = Tn [Sc 0, Sc 0, Sc 255]"
  by (auto simp: has_shape_Cons_iff)

lemma putText_pixel:
  assumes "has_shape [h, w, 3] y" "i < h" "j < w"
  shows "sub (sub (putText raster y n org sc [0, 0, 255] th) i) j =
           (if raster n org sc th i j then Tn [Sc 0, Sc 0, Sc 255] else sub (sub y i) j)"
proof -
  from assms(1) obtain rows where y: "y = Tn rows" and len: "length rows = h"
    and rows: "\<forall>r\<in>set rows. has_shape [w, 3] r"
    by (auto simp: has_shape_Cons_iff)
  from rows len assms(2) have "has_shape [w, 3] (rows ! i)"
    by auto
  then obtain ps where r: "rows ! i = Tn ps" and lenp: "length ps = w"
    and ps: "\<forall>p\<in>set ps. has_shape [3] p"
    by (auto simp: has_shape_Cons_iff)
  from ps lenp assms(3) have "has_shape [3] (ps ! j)"
    by auto
  then have "paint [0, 0, 255] (ps ! j) = Tn [Sc 0, Sc 0, Sc 255]"
    by (rule paint_bgr_red)
  then show ?thesis
    using assms(2,3) len lenp by (simp add: y r)
qed

lemma putText_has_shape:
  assumes "has_shape [h, w, 3] y"
  shows "has_shape [h, w, 3] (putText raster y n org sc [0, 0, 255] th)"
proof -
  have row: "has_shape [w, 3] (draw_row cov [0, 0, 255] r)" if "has_shape [w, 3] r" for r cov
  proof -
    from that obtain ps where r: "r = Tn ps" and lenp: "length ps = w"
      and ps: "\<forall>p\<in>set ps. has_shape [3] p"
      by (auto simp: has_shape_Cons_iff)
    have "has_shape [3] (if cov j then paint [0, 0, 255] p else p)" if "p \<in> set ps" for p j
      using ps that by (simp add: paint_bgr_red)
    then show ?thesis
      by (auto simp: r lenp list_all_iff dest: set_zip_rightD)
  qed
  from assms obtain rows where y: "y = Tn rows" and len: "length rows = h"
    and rows: "\<forall>r\<in>set rows. has_shape [w, 3] r"
    by (auto simp: has_shape_Cons_iff)
  show ?thesis
    using rows row by (auto simp: y len list_all_iff dest: set_zip_rightD)
qed

lemma annotate_image_valid:
  assumes "has_shape [1, 3, h, w] x" "0 < h" "0 < w"
  shows "\<exists>y. has_shape [h, w, 3] y \<and> (\<forall>i<h. \<forall>j<w. \<forall>v\<in>set (elems (sub (sub y i) j)). 0 \<le> v \<and> v \<le> 1) \<and>
           (\<forall>names raster c. annotate_image names raster x c =
              bindE (getitem names c) (\<lambda>n. Inr (putText raster y n (5, 25) 0.7 [0, 0, 255] 2)))"
proof -
  from assms(1) obtain t where x: "x = Tn [t]" and t: "has_shape [3, h, w] t"
    by (auto simp: has_shape_Cons_iff length_Suc_conv)
  define t' where "t' = tmap (\<lambda>v. min (max (v * 0.229 + 0.485) 0) 1) t"
  have t': "has_shape [3, h, w] t'"
    using t by (simp add: t'_def has_shape_tmap)
  have den: "denormalize x MEAN STD = Inr (Tn [t'])"
    unfolding x t'_def by (rule denormalize_batch_of_one)
  obtain p where pc: "permute_120 t' = Inr p" "cvtColor_RGB2BGR p = Inr (bgr_pixels h w t')"
    using permute_then_cvtColor [OF t' assms(2,3)] by blast
  have e01: "0 \<le> v \<and> v \<le> 1" if "v \<in> set (elems t')" for v
    using that by (auto simp: t'_def elems_tmap)
  have el: "set (elems (sub (sub (sub t' k) i) j)) \<subseteq> set (elems t')" if "k < 3" "i < h" "j < w" for k i j
  proof -
    have a: "set (elems (sub t' k)) \<subseteq> set (elems t')"
      using t' that(1) by (rule elems_sub)
    have b: "has_shape [h, w] (sub t' k)"
      using t' that(1) by (rule has_shape_sub)
    have c: "set (elems (sub (sub t' k) i)) \<subseteq> set (elems (sub t' k))"
      using b that(2) by (rule elems_sub)
    have d: "has_shape [w] (sub (sub t' k) i)"
      using b that(2) by (rule has_shape_sub)
    have "set (elems (sub (sub (sub t' k) i) j)) \<subseteq> set (elems (sub (sub t' k) i))"
      using d that(3) by (rule elems_sub)
    with a c show ?thesis by blast
  qed
  have sc: "has_shape [] (sub (sub (sub t' k) i) j)" if "k < 3" "i < h" "j < w" for k i j
    using t' that by (intro has_shape_sub)
  have shy: "has_shape [h, w, 3] (bgr_pixels h w t')"
    using sc by (simp add: bgr_pixels_def list_all_iff)
  have vals: "\<forall>i<h. \<forall>j<w. \<forall>v\<in>set (elems (sub (sub (bgr_pixels h w t') i) j)). 0 \<le> v \<and> v \<le> 1"
  proof (intro allI impI ballI)
    fix i j v
    assume ij: "i < h" "j < w" and v: "v \<in> set (elems (sub (sub (bgr_pixels h w t') i) j))"
    from v ij have "v \<in> set (elems (sub (sub (sub t' 2) i) j)) \<or>
        v \<in> set (elems (sub (sub (sub t' 1) i) j)) \<or> v \<in> set (elems (sub (sub (sub t' 0) i) j))"
      by (auto simp: bgr_pixels_def)
    moreover have "(2::nat) < 3" "(1::nat) < 3" "(0::nat) < 3"
      by simp_all
    ultimately have "v \<in> set (elems t')"
      using el ij by blast
    then show "0 \<le> v \<and> v \<le> 1"
      by (rule e01)
  qed
  have "annotate_image names raster x c =
          bindE (getitem names c) (\<lambda>n. Inr (putText raster (bgr_pixels h w t') n (5, 25) 0.7 [0, 0, 255] 2))"
    for names raster c
    by (simp add: annotate_image_def den pc bindE_def)
  with shy vals show ?thesis
    by blast
qed

lemma black_image_shape: "has_shape [1, 3, 224, 224] black_image"
  by (simp add: black_image_def list_all_iff)

text \<open>
  C3. The specification has it that in \<open>annotate_image\<close> the denormalization, which
  runs while the tensor still has its batch dimension, applies
  \<open>value * std[c] + mean[c]\<close> to channel \<open>c\<close> for each of the three channels. The
  code does not: the loop of \<open>denormalize\<close> walks
  dimension 0, which for the tensor \<open>annotate_image\<close> passes is the batch dimension of
  length 1, so its one step scales the whole image by \<open>std[0] = 0.229\<close> and shifts it
  by \<open>mean[0] = 0.485\<close>. The green and the blue channel never meet their own
  constants: a normalized value 0 comes back as 0.485 in all three channels, where the
  specification has 0.485, 0.456 and 0.406.
\<close>

theorem denormalize_batch_uses_first_constants:
  "denormalize (Tn [Tn [r, g, b]]) MEAN STD =
     Inr (Tn [Tn [tmap (\<lambda>v. min (max (v * 0.229 + 0.485) 0) 1) r,
                  tmap (\<lambda>v. min (max (v * 0.229 + 0.485) 0) 1) g,
                  tmap (\<lambda>v. min (max (v * 0.229 + 0.485) 0) 1) b]]) \<and>
   denormalize black_pixel_batch MEAN STD =
     Inr (Tn [Tn [Tn [Tn [Sc 0.485]], Tn [Tn [Sc 0.485]], Tn [Tn [Sc 0.485]]]])"
  by (simp add: MEAN_def STD_def clamp_def tmap_comp black_pixel_batch_def black_pixel_def)

text \<open>
  C1, as amended. For a batch of one channel-first image of three channels and a class
  id within the table, \<open>annotate_image\<close> returns a height-width-channel array in which
  every pixel that the text does not cover has its three values in the range from 0 to
  1, and every pixel that the text covers holds the text colour \<open>(0, 0, 255)\<close>.
\<close>

theorem annotate_image_values:
  assumes "has_shape [1, 3, h, w] x" and "0 < h" and "0 < w"
    and "0 \<le> c" and "c < int (length names)"
  shows "\<exists>img. annotate_image names raster x c = Inr img \<and> has_shape [h, w, 3] img \<and>
           (\<forall>i<h. \<forall>j<w.
              if raster (names ! nat c) (5, 25) 0.7 2 i j
              then sub (sub img i) j = Tn [Sc 0, Sc 0, Sc 255]
              else list_all (\<lambda>v. 0 \<le> v \<and> v \<le> 1) (elems (sub (sub img i) j)))"
proof -
  from annotate_image_valid [OF assms(1-3)] obtain y where y: "has_shape [h, w, 3] y"
    and vals: "\<forall>i<h. \<forall>j<w. \<forall>v\<in>set (elems (sub (sub y i) j)). 0 \<le> v \<and> v \<le> 1"
    and ann: "\<And>names raster c. annotate_image names raster x c =
                bindE (getitem names c) (\<lambda>n. Inr (putText raster y n (5, 25) 0.7 [0, 0, 255] 2))"
    by blast
  define img where "img = putText raster y (names ! nat c) (5, 25) 0.7 [0, 0, 255] 2"
  have "annotate_image names raster x c = Inr img"
    using assms(4,5) by (simp add: ann getitem_def bindE_def img_def)
  moreover have "has_shape [h, w, 3] img"
    unfolding img_def using y by (rule putText_has_shape)
  moreover have "if raster (names ! nat c) (5, 25) 0.7 2 i j
              then sub (sub img i) j = Tn [Sc 0, Sc 0, Sc 255]
              else list_all (\<lambda>v. 0 \<le> v \<and> v \<le> 1) (elems (sub (sub img i) j))"
    if "i < h" "j < w" for i j
    using vals that unfolding img_def putText_pixel [OF y that] by (simp add: list_all_iff)
  ultimately show ?thesis
    by blast
qed

theorem annotate_image_values_witness:
  "has_shape [1, 3, 224, 224] black_image \<and>
   (\<exists>img. annotate_image example_names example_raster black_image 0 = Inr img \<and>
      has_shape [224, 224, 3] img \<and>
      sub (sub img 20) 10 = Tn [Sc 0, Sc 0, Sc 255] \<and>
      list_all (\<lambda>v. 0 \<le> v \<and> v \<le> 1) (elems (sub (sub img 0) 0)))"
proof -
  from annotate_image_values [OF black_image_shape, of 0 example_names example_raster]
  obtain img where a: "annotate_image example_names example_raster black_image 0 = Inr img"
    and b: "has_shape [224, 224, 3] img"
    and c: "\<forall>i<224. \<forall>j<224.
              if example_raster (example_names ! nat 0) (5, 25) 0.7 2 i j
              then sub (sub img i) j = Tn [Sc 0, Sc 0, Sc 255]
              else list_all (\<lambda>v. 0 \<le> v \<and> v \<le> 1) (elems (sub (sub img i) j))"
    by (auto simp: example_names_def)
  from c have "sub (sub img 20) 10 = Tn [Sc 0, Sc 0, Sc 255]"
    by (auto simp: example_raster_def)
  moreover from c have "list_all (\<lambda>v. 0 \<le> v \<and> v \<le> 1) (elems (sub (sub img 0) 0))"
    by (auto simp: example_raster_def)
  ultimately show ?thesis
    using a b black_image_shape by blast
qed

text \<open>
  The statement of the specification, that every value of the returned array lies between
  0 and 1, fails wherever the text is drawn: the red channel of a covered pixel is 255.
\<close>

theorem annotate_image_text_pixel_counterexample:
  "read_pixel (annotate_image example_names example_raster black_image 0) 20 10 2 = Inr (Sc 255)"
proof -
  from annotate_image_valid [OF black_image_shape] obtain y where y: "has_shape [224, 224, 3] y"
    and ann: "\<And>names raster c. annotate_image names raster black_image c =
                bindE (getitem names c) (\<lambda>n. Inr (putText raster y n (5, 25) 0.7 [0, 0, 255] 2))"
    by auto
  have "sub (sub (putText example_raster y ''squat'' (5, 25) 0.7 [0, 0, 255] 2) 20) 10 = Tn [Sc 0, Sc 0, Sc 255]"
    using putText_pixel [OF y, of 20 10 example_raster] by (simp add: example_raster_def)
  then show ?thesis
    by (simp add: read_pixel_def ann getitem_def bindE_def example_names_def)
qed

lemma untouched_red_le_1:
  assumes "has_shape [h, w, 3] y" and "i < h" and "j < w"
    and "\<forall>v\<in>set (elems (sub (sub y i) j)). 0 \<le> v \<and> v \<le> 1"
  shows "\<exists>v. sub (sub (sub y i) j) 2 = Sc v \<and> v \<le> 1"
proof -
  have "has_shape [3] (sub (sub y i) j)"
    using assms(1-3) by (intro has_shape_sub)
  then obtain a b c where p: "sub (sub y i) j = Tn [Sc a, Sc b, Sc c]"
    by (auto simp: has_shape_Cons_iff has_shape_Nil_iff length_Suc_conv numeral_3_eq_3)
  with assms(4) show ?thesis
    by simp
qed

text \<open>
  C4, as amended. For a batch of one channel-first image of three channels,
  \<open>annotate_image\<close> returns an array of the image's height and width for every class
  id \<open>c\<close> with \<open>-len(class_names) \<le> c < len(class_names)\<close>, a negative id counting
  from the end of the table as Python's indexing does, so that it gives what the id
  \<open>len(class_names) + c\<close> gives, and raises the out-of-range error for every other id.
\<close>

theorem annotate_image_class_id:
  assumes "has_shape [1, 3, h, w] x" and "0 < h" and "0 < w"
  shows "(- int (length names) \<le> c \<and> c < int (length names) \<longrightarrow>
            (\<exists>img. annotate_image names raster x c = Inr img \<and> has_shape [h, w, 3] img)) \<and>
         (- int (length names) \<le> c \<and> c < 0 \<longrightarrow>
            annotate_image names raster x c = annotate_image names raster x (int (length names) + c)) \<and>
         (c < - int (length names) \<or> int (length names) \<le> c \<longrightarrow>
            annotate_image names raster x c = Inl IndexError)"
proof -
  from annotate_image_valid [OF assms] obtain y where y: "has_shape [h, w, 3] y"
    and ann: "\<And>names raster c. annotate_image names raster x c =
                bindE (getitem names c) (\<lambda>n. Inr (putText raster y n (5, 25) 0.7 [0, 0, 255] 2))"
    by blast
  have shp: "has_shape [h, w, 3] (putText raster y n (5, 25) 0.7 [0, 0, 255] 2)" for n
    using y by (rule putText_has_shape)
  have neg: "getitem names c = getitem names (int (length names) + c)"
    if "- int (length names) \<le> c" "c < 0"
    using that by (simp add: getitem_def)
  show ?thesis
    using shp neg by (auto simp: ann getitem_def bindE_def)
qed

theorem annotate_image_class_id_witness:
  "has_shape [1, 3, 224, 224] black_image \<and>
   (\<exists>img. annotate_image example_names plank_raster black_image 1 = Inr img \<and>
      has_shape [224, 224, 3] img) \<and>
   annotate_image example_names plank_raster black_image (- 1) =
     annotate_image example_names plank_raster black_image 1 \<and>
   annotate_image example_names plank_raster black_image (- 2) =
     annotate_image example_names plank_raster black_image 0 \<and>
   annotate_image example_names plank_raster black_image 2 = Inl IndexError \<and>
   annotate_image example_names plank_raster black_image (- 3) = Inl IndexError"
  using annotate_image_class_id [OF black_image_shape, of example_names 1 plank_raster]
    annotate_image_class_id [OF black_image_shape, of example_names "- 1" plank_raster]
    annotate_image_class_id [OF black_image_shape, of example_names "- 2" plank_raster]
    annotate_image_class_id [OF black_image_shape, of example_names 2 plank_raster]
    annotate_image_class_id [OF black_image_shape, of example_names "- 3" plank_raster]
    black_image_shape
  by (simp add: example_names_def)

text \<open>
  The specification has every id outside \<open>0 \<le> c < len(class_names)\<close> raise. The
  id \<open>-1\<close> does not: it selects the last name of the table. With a raster that paints
  a pixel for that name only, the array for id \<open>-1\<close> is the array for id 1, has the
  painted pixel, and is not the array for id 0.
\<close>

theorem annotate_image_negative_id_counterexample:
  "annotate_image example_names plank_raster black_image (- 1) \<noteq> Inl IndexError \<and>
   annotate_image example_names plank_raster black_image (- 1) =
     annotate_image example_names plank_raster black_image 1 \<and>
   read_pixel (annotate_image example_names plank_raster black_image (- 1)) 20 10 2 = Inr (Sc 255) \<and>
   annotate_image example_names plank_raster black_image (- 1) \<noteq>
     annotate_image example_names plank_raster black_image 0"
proof -
  from annotate_image_valid [OF black_image_shape] obtain y where y: "has_shape [224, 224, 3] y"
    and vals: "\<forall>i<224. \<forall>j<224. \<forall>v\<in>set (elems (sub (sub y i) j)). 0 \<le> v \<and> v \<le> 1"
    and ann: "\<And>names raster c. annotate_image names raster black_image c =
                bindE (getitem names c) (\<lambda>n. Inr (putText raster y n (5, 25) 0.7 [0, 0, 255] 2))"
    by auto
  have last_name: "annotate_image example_names plank_raster black_image (- 1) =
      Inr (putText plank_raster y ''plank'' (5, 25) 0.7 [0, 0, 255] 2)"
    by (simp add: ann getitem_def bindE_def example_names_def)
  have first_name: "annotate_image example_names plank_raster black_image 0 =
      Inr (putText plank_raster y ''squat'' (5, 25) 0.7 [0, 0, 255] 2)"
    by (simp add: ann getitem_def bindE_def example_names_def)
  have same: "annotate_image example_names plank_raster black_image 1 =
      Inr (putText plank_raster y ''plank'' (5, 25) 0.7 [0, 0, 255] 2)"
    by (simp add: ann getitem_def bindE_def example_names_def)
  have painted: "sub (sub (putText plank_raster y ''plank'' (5, 25) 0.7 [0, 0, 255] 2) 20) 10
      = Tn [Sc 0, Sc 0, Sc 255]"
    using putText_pixel [OF y, of 20 10 plank_raster] by (simp add: plank_raster_def)
  have plain: "sub (sub (putText plank_raster y ''squat'' (5, 25) 0.7 [0, 0, 255] 2) 20) 10
      = sub (sub y 20) 10"
    using putText_pixel [OF y, of 20 10 plank_raster] by (simp add: plank_raster_def)
  have "(20::nat) < 224" "(10::nat) < 224"
    by simp_all
  with vals have "\<forall>v\<in>set (elems (sub (sub y 20) 10)). 0 \<le> v \<and> v \<le> 1"
    by blast
  from untouched_red_le_1 [OF y _ _ this] obtain v where
    v: "sub (sub (sub y 20) 10) 2 = Sc v" "v \<le> 1"
    by auto
  have "putText plank_raster y ''plank'' (5, 25) 0.7 [0, 0, 255] 2 \<noteq>
        putText plank_raster y ''squat'' (5, 25) 0.7 [0, 0, 255] 2"
  proof
    assume "putText plank_raster y ''plank'' (5, 25) 0.7 [0, 0, 255] 2 =
        putText plank_raster y ''squat'' (5, 25) 0.7 [0, 0, 255] 2"
    then have "sub (sub (sub y 20) 10) 2 = Sc 255"
      using painted plain by simp
    with v show False
      by simp
  qed
  then show ?thesis
    by (simp add: last_name first_name same read_pixel_def bindE_def painted)
qed

section \<open>Normalize and denormalize\<close>

text \<open>
  On a channel-first image without a batch dimension the loop of \<open>denormalize\<close> walks
  the channels, and there it undoes \<open>Normalize\<close>: the round trip returns the clamped
  input, which for values between 0 and 1 is the input.
\<close>

lemma denormalize_Normalize_rank3:
  assumes "has_shape [3, h, w] x" and "0 < h" and "0 < w"
    and "\<forall>v\<in>set (elems x). 0 \<le> v \<and> v \<le> 1"
  shows "bindE (Normalize MEAN STD x) (\<lambda>y. denormalize y MEAN STD) = Inr (clamp x 0 1)"
    and "clamp x 0 1 = x"
proof -
  from assms(1) obtain r g b where x: "x = Tn [r, g, b]"
    by (auto simp: has_shape_Cons_iff length_Suc_conv numeral_3_eq_3)
  have sh: "shape x = [3, h, w]"
    using assms by (simp add: shape_of_has_shape)
  have n: "Normalize MEAN STD x = Inr (Tn [tmap (\<lambda>v. (v - 0.485) / 0.229) r, tmap (\<lambda>v. (v - 0.456) / 0.224) g, tmap (\<lambda>v. (v - 0.406) / 0.225) b])"
    by (simp add: Normalize_def ndim_def sh) (simp add: x MEAN_def STD_def broadcast_def)
  show "bindE (Normalize MEAN STD x) (\<lambda>y. denormalize y MEAN STD) = Inr (clamp x 0 1)"
    unfolding n by (simp add: bindE_def MEAN_def STD_def clamp_def x tmap_comp diff_divide_distrib)
  show "clamp x 0 1 = x"
  proof -
    have "tmap (\<lambda>v. min (max v 0) 1) x = tmap (\<lambda>v. v) x"
      using assms(4) by (intro tmap_cong_elems) auto
    moreover have "tmap (\<lambda>v. v) t = t" for t
      by (induction t) (auto simp: map_idI)
    ultimately show ?thesis
      by (simp add: clamp_def)
  qed
qed

text \<open>
  C2. The specification has it that for any tensor \<open>x\<close> with values between 0 and 1,
  \<open>denormalize(normalize(x))\<close> is \<open>clamp(x, 0, 1)\<close>. With a batch dimension in front,
  as every tensor has that \<open>annotate_image\<close> hands to \<open>denormalize\<close>, the code does
  something else: \<open>Normalize\<close> works on the channel dimension, \<open>denormalize\<close> on
  dimension 0. A black pixel, normalized and denormalized, comes back with
  \<open>527 / 28000\<close> in the green and \<open>16151 / 225000\<close> in the blue channel, while
  \<open>clamp\<close> leaves it black; so it does when it is normalized as an image and given
  its batch dimension afterwards, which is the order of the driver.
\<close>

theorem denormalize_Normalize_batch_example:
  "bindE (Normalize MEAN STD black_pixel_batch) (\<lambda>y. denormalize y MEAN STD) =
     Inr (Tn [Tn [Tn [Tn [Sc 0]], Tn [Tn [Sc (527 / 28000)]], Tn [Tn [Sc (16151 / 225000)]]]]) \<and>
   bindE (Normalize MEAN STD black_pixel) (\<lambda>y. denormalize (unsqueeze0 y) MEAN STD) =
     Inr (Tn [Tn [Tn [Tn [Sc 0]], Tn [Tn [Sc (527 / 28000)]], Tn [Tn [Sc (16151 / 225000)]]]]) \<and>
   clamp black_pixel_batch 0 1 = black_pixel_batch"
  by (simp add: black_pixel_batch_def black_pixel_def unsqueeze0_def Normalize_def ndim_def
      broadcast_def MEAN_def STD_def bindE_def clamp_def tmap_comp)

section \<open>Rounding to float32\<close>

lemma round_to_even_bounds: "\<lfloor>q\<rfloor> \<le> round_to_even q \<and> round_to_even q \<le> \<lfloor>q\<rfloor> + 1"
  by (simp add: round_to_even_def)

lemma round_to_even_of_int: "round_to_even (of_int n) = n"
  by (simp add: round_to_even_def)

lemma round_to_even_mono: "q \<le> q' \<Longrightarrow> round_to_even q \<le> round_to_even q'"
proof -
  assume le: "q \<le> q'"
  then have fl: "\<lfloor>q\<rfloor> \<le> \<lfloor>q'\<rfloor>"
    by (rule floor_mono)
  show ?thesis
  proof (cases "\<lfloor>q\<rfloor> = \<lfloor>q'\<rfloor>")
    case True
    then have "q - of_int \<lfloor>q\<rfloor> \<le> q' - of_int \<lfloor>q'\<rfloor>"
      using le by simp
    then show ?thesis
      using True by (auto simp: round_to_even_def)
  next
    case False
    with fl have "\<lfloor>q\<rfloor> + 1 \<le> \<lfloor>q'\<rfloor>"
      by simp
    then show ?thesis
      using round_to_even_bounds [of q] round_to_even_bounds [of q'] by linarith
  qed
qed

lemma float32_round_0: "float32_round 0 = 0"
  by (simp add: float32_round_def)

lemma float32_round_minus: "float32_round (- x) = - float32_round x"
  by (simp add: float32_round_def sgn_minus)

lemma binade:
  assumes "0 < x"
  shows "2 powr of_int \<lfloor>log 2 x\<rfloor> \<le> x" and "x < 2 powr (of_int \<lfloor>log 2 x\<rfloor> + 1)"
proof -
  have "of_int \<lfloor>log 2 x\<rfloor> \<le> log 2 x"
    by simp
  then have "2 powr of_int \<lfloor>log 2 x\<rfloor> \<le> 2 powr log 2 x"
    by (simp only: powr_le_cancel_iff) 
  then show "2 powr of_int \<lfloor>log 2 x\<rfloor> \<le> x"
    using assms by simp
  have "log 2 x < of_int \<lfloor>log 2 x\<rfloor> + 1"
    by linarith
  then have "2 powr log 2 x < 2 powr (of_int \<lfloor>log 2 x\<rfloor> + 1)"
    by (simp only: powr_less_cancel_iff) 
  then show "x < 2 powr (of_int \<lfloor>log 2 x\<rfloor> + 1)"
    using assms by simp
qed

lemma float32_round_pos_bounds:
  assumes "0 < x"
  shows "2 powr of_int \<lfloor>log 2 x\<rfloor> \<le> float32_round x"
    and "float32_round x \<le> 2 powr (of_int \<lfloor>log 2 x\<rfloor> + 1)"
proof -
  define e where "e = \<lfloor>log 2 x\<rfloor>"
  define u :: real where "u = 2 powr (of_int e - 23)"
  have u: "0 < u"
    by (simp add: u_def)
  have fx: "float32_round x = of_int (round_to_even (x / u)) * u"
    using assms by (simp add: float32_round_def e_def u_def)
  have pe: "2 powr of_int e = 2 ^ 23 * u"
    by (simp add: u_def powr_diff)
  have pe1: "2 powr (of_int e + 1) = 2 ^ 24 * u"
    by (simp add: u_def powr_diff powr_add)
  have lo: "2 ^ 23 \<le> x / u"
    using binade(1) [OF assms] u pe by (simp add: e_def pos_le_divide_eq)
  have hi: "x / u < 2 ^ 24"
    using binade(2) [OF assms] u pe1 by (simp add: e_def pos_divide_less_eq)
  have "round_to_even (of_int (2 ^ 23)) \<le> round_to_even (x / u)"
    using lo by (intro round_to_even_mono) simp
  then have a: "2 ^ 23 \<le> round_to_even (x / u)"
    by (simp only: round_to_even_of_int)
  have "round_to_even (x / u) \<le> round_to_even (of_int (2 ^ 24))"
    using hi by (intro round_to_even_mono) simp
  then have b: "round_to_even (x / u) \<le> 2 ^ 24"
    by (simp only: round_to_even_of_int)
  from a have "(2 ^ 23 :: real) \<le> of_int (round_to_even (x / u))"
    by (metis of_int_le_iff of_int_numeral of_int_power)
  then show "2 powr of_int \<lfloor>log 2 x\<rfloor> \<le> float32_round x"
    using u unfolding fx e_def [symmetric] pe by (simp add: mult_right_mono)
  from b have "of_int (round_to_even (x / u)) \<le> (2 ^ 24 :: real)"
    by (metis of_int_le_iff of_int_numeral of_int_power)
  then show "float32_round x \<le> 2 powr (of_int \<lfloor>log 2 x\<rfloor> + 1)"
    using u unfolding fx e_def [symmetric] pe1 by (simp add: mult_right_mono)
qed

lemma float32_round_mono_pos:
  assumes "0 < x" and "x \<le> y"
  shows "float32_round x \<le> float32_round y"
proof -
  have y: "0 < y"
    using assms by simp
  have le: "\<lfloor>log 2 x\<rfloor> \<le> \<lfloor>log 2 y\<rfloor>"
    using assms by (intro floor_mono) simp
  show ?thesis
  proof (cases "\<lfloor>log 2 x\<rfloor> = \<lfloor>log 2 y\<rfloor>")
    case True
    define u :: real where "u = 2 powr (of_int \<lfloor>log 2 y\<rfloor> - 23)"
    have u: "0 < u"
      by (simp add: u_def)
    have "x / u \<le> y / u"
      using assms(2) u by (simp add: divide_right_mono)
    then have "round_to_even (x / u) \<le> round_to_even (y / u)"
      by (rule round_to_even_mono)
    then have "of_int (round_to_even (x / u)) * u \<le> of_int (round_to_even (y / u)) * u"
      using u by (simp add: mult_right_mono)
    then show ?thesis
      using assms(1) y True by (simp add: float32_round_def u_def)
  next
    case False
    with le have "of_int \<lfloor>log 2 x\<rfloor> + (1::real) \<le> of_int \<lfloor>log 2 y\<rfloor>"
      by linarith
    then have "2 powr (of_int \<lfloor>log 2 x\<rfloor> + 1) \<le> (2::real) powr of_int \<lfloor>log 2 y\<rfloor>"
      by (simp only: powr_le_cancel_iff) 
    with float32_round_pos_bounds(2) [OF assms(1)] float32_round_pos_bounds(1) [OF y]
    show ?thesis
      by linarith
  qed
qed

lemma float32_round_nonneg: "0 \<le> x \<Longrightarrow> 0 \<le> float32_round x"
proof (cases "x = 0")
  case True
  then show ?thesis by (simp add: float32_round_0)
next
  case False
  assume "0 \<le> x"
  with False have "0 < x" by simp
  from float32_round_pos_bounds(1) [OF this] show ?thesis
    by (meson order_trans powr_ge_zero)
qed

lemma float32_round_mono: "x \<le> y \<Longrightarrow> float32_round x \<le> float32_round y"
proof -
  assume le: "x \<le> y"
  consider "0 < x" | "x \<le> 0" "0 \<le> y" | "y < 0"
    by linarith
  then show ?thesis
  proof cases
    case 1
    then show ?thesis using le by (rule float32_round_mono_pos)
  next
    case 2
    have "0 \<le> float32_round (- x)"
      using 2(1) by (intro float32_round_nonneg) simp
    then have "float32_round x \<le> 0"
      by (simp add: float32_round_minus)
    moreover have "0 \<le> float32_round y"
      using 2(2) by (rule float32_round_nonneg)
    ultimately show ?thesis by simp
  next
    case 3
    then have "0 < - y" "- y \<le> - x"
      using le by simp_all
    then have "float32_round (- y) \<le> float32_round (- x)"
      by (rule float32_round_mono_pos)
    then show ?thesis
      by (simp add: float32_round_minus)
  qed
qed

lemma float32_round_exact:
  assumes "2 ^ 23 \<le> m" and "m < 2 ^ 24"
  shows "float32_round (of_int m * 2 powr of_int k) = of_int m * 2 powr of_int k"
proof -
  define x :: real where "x = of_int m * 2 powr of_int k"
  have m: "(2 ^ 23 :: real) \<le> of_int m" "of_int m < (2 ^ 24 :: real)"
    using assms by (metis of_int_le_iff of_int_numeral of_int_power,
        metis of_int_less_iff of_int_numeral of_int_power)
  have pos: "0 < x"
    using m by (simp add: x_def)
  have "2 powr (23 + of_int k) \<le> x"
    using m by (simp add: x_def powr_add)
  moreover have "x < 2 powr (24 + of_int k)"
    using m by (simp add: x_def powr_add)
  ultimately have "23 + of_int k \<le> log 2 x" "log 2 x < 24 + of_int k"
    using pos by (simp_all add: le_log_iff log_less_iff)
  then have "\<lfloor>log 2 x\<rfloor> = 23 + k"
    by (simp add: floor_eq_iff)
  then have "float32_round x = of_int (round_to_even (x / 2 powr of_int k)) * 2 powr of_int k"
    using pos by (simp add: float32_round_def)
  also have "x / 2 powr of_int k = of_int m"
    by (simp add: x_def)
  finally show ?thesis
    by (simp add: round_to_even_of_int x_def)
qed

lemma float32_round_values:
  "float32_round 1 = 1" "float32_round 2 = 2" "float32_round (1 / 2) = 1 / 2"
  "float32_round (3 / 2) = 3 / 2" "float32_round (5 / 8) = 5 / 8"
  "float32_round (1 / 2 ^ 27) = 1 / 2 ^ 27"
  using float32_round_exact [of 8388608 "- 23"] float32_round_exact [of 8388608 "- 22"]
    float32_round_exact [of 8388608 "- 24"] float32_round_exact [of 12582912 "- 23"]
    float32_round_exact [of 10485760 "- 24"] float32_round_exact [of 8388608 "- 50"]
  by (simp_all add: powr_minus_divide)

lemma float32_round_near_1:
  assumes "1 - 1 / 2 ^ 26 \<le> x" and "x \<le> 1"
  shows "float32_round x = 1"
proof -
  define c :: real where "c = 1 - 1 / 2 ^ 26"
  have "- 1 \<le> log 2 c" "log 2 c < 0"
    by (simp_all add: c_def le_log_iff log_less_iff powr_minus_divide)
  then have fl: "\<lfloor>log 2 \<bar>c\<bar>\<rfloor> = - 1"
    by (simp add: floor_eq_iff c_def)
  have "float32_round c = 1"
    unfolding float32_round_def fl
    by (simp add: c_def powr_minus_divide round_to_even_def)
  then have "1 \<le> float32_round x"
    using float32_round_mono [of c x] assms(1) by (simp add: c_def)
  moreover have "float32_round x \<le> 1"
    using float32_round_mono [OF assms(2)] by (simp add: float32_round_values)
  ultimately show ?thesis
    by simp
qed

section \<open>Properties of inference\<close>

lemma argmax_loop_is_argmax:
  assumes "is_argmax pre mi" and "mp = pre ! mi" and "i = length pre"
  shows "is_argmax (pre @ vs) (argmax_loop vs i mp mi)"
  using assms
proof (induction vs arbitrary: pre i mp mi)
  case Nil
  then show ?case by simp
next
  case (Cons v vs)
  have mi: "mi < length pre"
    using Cons.prems(1) by (simp add: is_argmax_def)
  have le: "pre ! j \<le> pre ! mi" if "j < length pre" for j
    using Cons.prems(1) that by (simp add: is_argmax_def list_all_iff)
  have lt: "pre ! j < pre ! mi" if "j < mi" for j
    using Cons.prems(1) that by (simp add: is_argmax_def list_all_iff)
  show ?case
  proof (cases "v > mp")
    case True
    have "is_argmax (pre @ [v]) (length pre)"
      unfolding is_argmax_def list_all_iff
    proof (intro conjI ballI)
      show "length pre < length (pre @ [v])" by simp
    next
      fix j assume "j \<in> set [0..<length (pre @ [v])]"
      then have "j < length pre \<or> j = length pre" by auto
      then show "(pre @ [v]) ! j \<le> (pre @ [v]) ! length pre"
        using le [of j] True Cons.prems(2) by (auto simp: nth_append)
    next
      fix j assume "j \<in> set [0..<length pre]"
      then have "j < length pre" by simp
      then show "(pre @ [v]) ! j < (pre @ [v]) ! length pre"
        using le [of j] True Cons.prems(2) by (auto simp: nth_append)
    qed
    then have "is_argmax ((pre @ [v]) @ vs) (argmax_loop vs (Suc i) v (length pre))"
      by (rule Cons.IH) (simp_all add: Cons.prems(3))
    with True Cons.prems(3) show ?thesis
      by simp
  next
    case False
    have "is_argmax (pre @ [v]) mi"
      unfolding is_argmax_def list_all_iff
    proof (intro conjI ballI)
      show "mi < length (pre @ [v])" using mi by simp
    next
      fix j assume "j \<in> set [0..<length (pre @ [v])]"
      then have "j < length pre \<or> j = length pre" by auto
      then show "(pre @ [v]) ! j \<le> (pre @ [v]) ! mi"
        using le [of j] False Cons.prems(2) mi by (auto simp: nth_append)
    next
      fix j assume "j \<in> set [0..<mi]"
      then have "j < mi" by simp
      then show "(pre @ [v]) ! j < (pre @ [v]) ! mi"
        using lt [of j] mi by (auto simp: nth_append)
    qed
    then have "is_argmax ((pre @ [v]) @ vs) (argmax_loop vs (Suc i) mp mi)"
      by (rule Cons.IH) (simp_all add: Cons.prems(2,3) mi nth_append)
    with False show ?thesis
      by simp
  qed
qed

lemma argmax_flat_is_argmax:
  "xs \<noteq> [] \<Longrightarrow> \<exists>k. argmax_flat xs = Inr k \<and> is_argmax xs k"
proof (cases xs)
  case Nil
  then show "xs \<noteq> [] \<Longrightarrow> ?thesis" by simp
next
  case (Cons v vs)
  have "is_argmax [v] 0"
    by (simp add: is_argmax_def)
  then have "is_argmax ([v] @ vs) (argmax_loop vs 1 v 0)"
    by (rule argmax_loop_is_argmax) simp_all
  then show ?thesis
    by (simp add: argmax_flat_def Cons)
qed

lemma argmax_loop_map_strict_mono:
  assumes "strict_mono f"
  shows "argmax_loop (map f vs) i (f mp) mi = argmax_loop vs i mp mi"
  using assms by (induction vs arbitrary: i mp mi) (simp_all add: strict_mono_less)

lemma argmax_flat_map_strict_mono:
  "strict_mono f \<Longrightarrow> argmax_flat (map f xs) = argmax_flat xs"
  by (cases xs) (simp_all add: argmax_flat_def argmax_loop_map_strict_mono)

lemma sum_exp_pos: "xs \<noteq> [] \<Longrightarrow> 0 < (\<Sum>y\<leftarrow>xs. exp (y::real))"
proof (induction xs)
  case Nil
  then show ?case by simp
next
  case (Cons x xs)
  have "0 \<le> (\<Sum>y\<leftarrow>xs. exp y)"
    by (rule sum_list_nonneg) auto
  then show ?case
    by (simp add: add_pos_nonneg)
qed

lemma is_argmax_unique: "is_argmax xs k \<Longrightarrow> is_argmax xs k' \<Longrightarrow> k = k'"
  by (metis (no_types, lifting) is_argmax_def list_all_iff atLeastLessThan_iff set_upt
      linorder_neqE_nat not_less zero_le)

text \<open>
  In exact arithmetic softmax is strictly increasing in each score, and then the
  arg-max of the probabilities is the arg-max of the scores.
\<close>

lemma argmax_flat_exact_softmax:
  "argmax_flat (map (\<lambda>x. exp x / (\<Sum>y\<leftarrow>xs. exp y)) xs) = argmax_flat xs"
proof (cases "xs = []")
  case True
  then show ?thesis by simp
next
  case False
  then have "0 < (\<Sum>y\<leftarrow>xs. exp y)"
    by (rule sum_exp_pos)
  then have "strict_mono (\<lambda>x::real. exp x / (\<Sum>y\<leftarrow>xs. exp y))"
    by (simp add: strict_mono_def divide_strict_right_mono)
  then show ?thesis
    by (rule argmax_flat_map_strict_mono)
qed

text \<open>
  In float32 softmax is still increasing, though not strictly: a row of probabilities is
  the image of the row of scores under one increasing function.
\<close>

lemma fold_max_in_set: "fold max xs (x::real) \<in> set (x # xs)"
proof (induction xs arbitrary: x)
  case Nil
  then show ?case by simp
next
  case (Cons y ys)
  have "fold max ys (max y x) \<in> set (max y x # ys)"
    by (rule Cons.IH)
  moreover have "max y x = x \<or> max y x = y"
    by (simp add: max_def)
  ultimately show ?case
    by auto
qed

lemma rounded_sum_ge_1:
  assumes "\<forall>e\<in>set es. 0 \<le> e" and "0 \<le> acc" and "1 \<le> acc \<or> 1 \<in> set es"
  shows "1 \<le> foldl (\<lambda>acc e. float32_round (acc + e)) acc es"
  using assms
proof (induction es arbitrary: acc)
  case Nil
  then show ?case by simp
next
  case (Cons e es)
  have e: "0 \<le> e"
    using Cons.prems(1) by simp
  have nonneg: "0 \<le> float32_round (acc + e)"
    using e Cons.prems(2) by (intro float32_round_nonneg) simp
  have "1 \<le> float32_round (acc + e) \<or> 1 \<in> set es"
  proof (cases "1 \<le> acc \<or> e = 1")
    case True
    then have "1 \<le> acc + e"
      using e Cons.prems(2) by auto
    then have "float32_round 1 \<le> float32_round (acc + e)"
      by (rule float32_round_mono)
    then show ?thesis
      by (simp add: float32_round_values)
  next
    case False
    then show ?thesis
      using Cons.prems(3) by auto
  qed
  with Cons.IH [of "float32_round (acc + e)"] Cons.prems(1) nonneg show ?case
    by simp
qed

lemma softmax_row_increasing:
  "\<exists>g. mono g \<and> softmax_row xs = map g xs"
proof (cases xs)
  case Nil
  have "mono (\<lambda>v::real. v)"
    by (simp add: mono_def)
  then show ?thesis
    using Nil by auto
next
  case (Cons x ys)
  define m where "m = fold max ys x"
  define es where "es = map (\<lambda>v. float32_round (exp (float32_round (v - m)))) (x # ys)"
  define s where "s = foldl (\<lambda>acc e. float32_round (acc + e)) 0 es"
  define g where "g = (\<lambda>v. float32_round (float32_round (exp (float32_round (v - m))) / s))"
  have "m \<in> set (x # ys)"
    unfolding m_def by (rule fold_max_in_set)
  then have "float32_round (exp (float32_round (m - m))) \<in> set es"
    unfolding es_def set_map by (rule imageI)
  then have one: "1 \<in> set es"
    by (simp add: float32_round_0 float32_round_values)
  have "\<forall>e\<in>set es. 0 \<le> e"
    by (auto simp: es_def intro: float32_round_nonneg)
  then have "1 \<le> s"
    unfolding s_def using one by (intro rounded_sum_ge_1) simp_all
  then have s: "0 < s"
    by simp
  have "mono g"
    unfolding mono_def g_def
  proof (intro allI impI)
    fix v w :: real
    assume "v \<le> w"
    then have "float32_round (v - m) \<le> float32_round (w - m)"
      by (intro float32_round_mono) simp
    then have "float32_round (exp (float32_round (v - m))) \<le> float32_round (exp (float32_round (w - m)))"
      by (intro float32_round_mono) simp
    then have "float32_round (exp (float32_round (v - m))) / s
         \<le> float32_round (exp (float32_round (w - m))) / s"
      using s by (simp add: divide_right_mono)
    then show "float32_round (float32_round (exp (float32_round (v - m))) / s)
         \<le> float32_round (float32_round (exp (float32_round (w - m))) / s)"
      by (rule float32_round_mono)
  qed
  moreover have "softmax_row xs = map g xs"
    by (simp add: Cons Let_def g_def s_def es_def m_def)
  ultimately show ?thesis
    by blast
qed

lemma is_argmax_increasing_map:
  assumes "mono g" and "is_argmax xs r" and "is_argmax (map g xs) k"
  shows "k \<le> r \<and> map g xs ! k = map g xs ! r"
proof -
  have r: "r < length xs" and k: "k < length xs"
    using assms(2,3) by (simp_all add: is_argmax_def)
  have "xs ! k \<le> xs ! r"
    using assms(2) k by (simp add: is_argmax_def list_all_iff)
  then have "g (xs ! k) \<le> g (xs ! r)"
    using assms(1) by (simp add: mono_def)
  moreover have "g (xs ! r) \<le> g (xs ! k)"
    using assms(3) r k by (simp add: is_argmax_def list_all_iff)
  ultimately have eq: "g (xs ! k) = g (xs ! r)"
    by simp
  have "\<not> r < k"
  proof
    assume "r < k"
    then have "g (xs ! r) < g (xs ! k)"
      using assms(3) r k by (simp add: is_argmax_def list_all_iff)
    with eq show False
      by simp
  qed
  with eq r k show ?thesis
    by simp
qed

lemma softmax_row_near_tied:
  "softmax_row near_tied_scores = [1 / 2, 1 / 2]"
proof -
  have "1 - 1 / 2 ^ 26 \<le> exp (- (1 / 2 ^ 27) :: real)"
    using exp_ge_add_one_self [of "- (1 / 2 ^ 27) :: real"] by simp
  then have "float32_round (exp (- (1 / 2 ^ 27))) = 1"
    by (intro float32_round_near_1) simp_all
  then have e: "float32_round (exp (- (1 / 134217728))) = 1"
    by simp
  have p: "float32_round (1 / 134217728) = 1 / 134217728"
    using float32_round_values(6) by simp
  show ?thesis
    by (simp add: near_tied_scores_def Let_def float32_round_minus float32_round_0
        float32_round_values p e)
qed

text \<open>
  C10, as amended. For a batch of one row of raw scores, the class id \<open>k\<close> that the code
  computes is the first index at which the softmax probability of the row is largest.
  It is never behind the arg-max \<open>r\<close> of the raw scores and has the same probability as
  \<open>r\<close>; where the two differ, the score at \<open>k\<close> is smaller than the score at \<open>r\<close> and
  has been rounded to the same probability. (Both arg-maxes raise for an empty row.)
\<close>

theorem predicted_class_and_argmax_of_scores:
  "(scores = [] \<longrightarrow>
      np_argmax (softmax_dim1 [scores]) = Inl ValueError \<and> argmax_flat scores = Inl ValueError) \<and>
   (scores \<noteq> [] \<longrightarrow>
      (\<exists>k r. np_argmax (softmax_dim1 [scores]) = Inr k \<and> is_argmax (softmax_row scores) k \<and>
             argmax_flat scores = Inr r \<and> is_argmax scores r \<and>
             k \<le> r \<and> softmax_row scores ! k = softmax_row scores ! r \<and>
             (k < r \<longrightarrow> scores ! k < scores ! r)))"
proof (cases "scores = []")
  case True
  then show ?thesis
    by (simp add: np_argmax_def softmax_dim1_def argmax_flat_def)
next
  case False
  obtain g where g: "mono g" "softmax_row scores = map g scores"
    using softmax_row_increasing by blast
  from argmax_flat_is_argmax [OF False] obtain r where
    r: "argmax_flat scores = Inr r" "is_argmax scores r"
    by blast
  have "map g scores \<noteq> []"
    using False by simp
  from argmax_flat_is_argmax [OF this] obtain k where
    k: "argmax_flat (map g scores) = Inr k" "is_argmax (map g scores) k"
    by blast
  from is_argmax_increasing_map [OF g(1) r(2) k(2)]
  have kr: "k \<le> r" "map g scores ! k = map g scores ! r"
    by simp_all
  have "scores ! k < scores ! r" if "k < r"
    using r(2) that by (simp add: is_argmax_def list_all_iff)
  with False r k kr show ?thesis
    by (auto simp: np_argmax_def softmax_dim1_def g(2))
qed

theorem predicted_class_and_argmax_of_scores_witness:
  "near_tied_scores \<noteq> [] \<and>
   (\<exists>k r. np_argmax (softmax_dim1 [near_tied_scores]) = Inr k \<and>
          argmax_flat near_tied_scores = Inr r \<and> k = 0 \<and> r = 1 \<and> k \<le> r \<and>
          softmax_row near_tied_scores ! k = softmax_row near_tied_scores ! r \<and>
          near_tied_scores ! k < near_tied_scores ! r)"
proof -
  have ne: "near_tied_scores \<noteq> []"
    by (simp add: near_tied_scores_def)
  from predicted_class_and_argmax_of_scores [of near_tied_scores] ne obtain k r where
    k: "np_argmax (softmax_dim1 [near_tied_scores]) = Inr k"
    and r: "argmax_flat near_tied_scores = Inr r"
    and kr: "k \<le> r" "softmax_row near_tied_scores ! k = softmax_row near_tied_scores ! r"
      "k < r \<longrightarrow> near_tied_scores ! k < near_tied_scores ! r"
    by blast
  from k have k0: "k = 0"
    by (simp add: np_argmax_def softmax_dim1_def softmax_row_near_tied argmax_flat_def)
  from r have r1: "r = 1"
    by (simp add: near_tied_scores_def argmax_flat_def)
  from k r kr k0 r1 ne show ?thesis
    by simp
qed

text \<open>
  The specification's implicit reading, that the computed class id is the arg-max of the
  raw scores because softmax preserves their order strictly, fails in float32. For the
  scores 0 and \<open>1 / 2 ^ 27\<close> both probabilities are \<open>1 / 2\<close>: the code answers class 0,
  and the arg-max of the raw scores is class 1.
\<close>

theorem predicted_class_near_tied_counterexample:
  "np_argmax (softmax_dim1 [near_tied_scores]) = Inr 0 \<and> argmax_flat near_tied_scores = Inr 1"
proof -
  have "np_argmax (softmax_dim1 [near_tied_scores]) = Inr 0"
    by (simp add: np_argmax_def softmax_dim1_def softmax_row_near_tied argmax_flat_def)
  moreover have "argmax_flat near_tied_scores = Inr 1"
    by (simp add: near_tied_scores_def argmax_flat_def)
  ultimately show ?thesis
    by simp
qed

text \<open>
  C7. When the network returns one row of scores for the batch, \<open>inference\<close> applies
  softmax to the row, takes an arg-max \<open>k\<close> of the probabilities, and returns what
  \<open>annotate_image\<close> returns for the image tensor that was given to the network and the
  class id \<open>k\<close>. (For a row without classes NumPy's arg-max raises.)
\<close>

theorem inference_size_one_batch:
  assumes "model img = Inr [scores]"
  shows "(scores = [] \<longrightarrow> inference names raster model img = Inl ValueError) \<and>
         (scores \<noteq> [] \<longrightarrow>
            (\<exists>k. is_argmax (softmax_row scores) k \<and>
                 inference names raster model img = annotate_image names raster img (int k)))"
proof (cases "scores = []")
  case True
  then show ?thesis
    using assms by (simp add: inference_def bindE_def softmax_dim1_def np_argmax_def
        argmax_flat_def)
next
  case False
  then have "softmax_row scores \<noteq> []"
    by (cases scores) (simp_all add: Let_def)
  from argmax_flat_is_argmax [OF this] obtain k where
    "argmax_flat (softmax_row scores) = Inr k" "is_argmax (softmax_row scores) k"
    by blast
  then show ?thesis
    using assms False by (auto simp: inference_def bindE_def softmax_dim1_def np_argmax_def)
qed

theorem inference_size_one_batch_witness:
  "example_model black_image = Inr [[0, 1]] \<and>
   inference example_names example_raster example_model black_image =
     annotate_image example_names example_raster black_image 1"
proof -
  have m: "example_model black_image = Inr [[0, 1]]"
    by (simp add: example_model_def)
  from inference_size_one_batch [of example_model black_image "[0, 1]" example_names example_raster, OF m]
  obtain k where k: "is_argmax (softmax_row [0, 1]) k"
    and inf: "inference example_names example_raster example_model black_image =
                annotate_image example_names example_raster black_image (int k)"
    by auto
  have "is_argmax (softmax_row [0, 1]) 1"
  proof -
    define e0 where "e0 = float32_round (exp (- 1))"
    define a where "a = float32_round e0"
    define s where "s = float32_round (a + 1)"
    have "(2::real) \<le> exp 1"
      using exp_ge_add_one_self [of "1::real"] by simp
    then have "exp (- 1 :: real) \<le> 1 / 2"
      by (simp add: exp_minus field_simps)
    then have e0h: "e0 \<le> 1 / 2"
      unfolding e0_def using float32_round_mono [of "exp (- 1)" "1 / 2"]
      by (simp add: float32_round_values)
    have e0: "0 \<le> e0"
      unfolding e0_def by (intro float32_round_nonneg) simp
    have a: "a \<le> 1 / 2" "0 \<le> a"
      unfolding a_def using float32_round_mono [of e0 "1 / 2"] float32_round_nonneg [of e0] e0 e0h
      by (simp_all add: float32_round_values)
    have s: "1 \<le> s" "s \<le> 3 / 2"
      unfolding s_def using float32_round_mono [of 1 "a + 1"] float32_round_mono [of "a + 1" "3 / 2"] a
      by (simp_all add: float32_round_values)
    have "e0 \<le> 1 / 2 * s"
      using s(1) e0h by simp
    then have "e0 / s \<le> 1 / 2"
      using s(1) by (simp add: pos_divide_le_eq)
    then have p0: "float32_round (e0 / s) \<le> 1 / 2"
      using float32_round_mono [of "e0 / s" "1 / 2"] by (simp add: float32_round_values)
    have "5 / 8 \<le> 1 / s"
      using s by (simp add: pos_le_divide_eq)
    then have p1: "5 / 8 \<le> float32_round (1 / s)"
      using float32_round_mono [of "5 / 8" "1 / s"] by (simp add: float32_round_values)
    have "softmax_row [0, 1] = [float32_round (e0 / s), float32_round (1 / s)]"
      by (simp add: Let_def float32_round_minus float32_round_0 float32_round_values
          e0_def a_def s_def)
    then show ?thesis
      using p0 p1 by (simp add: is_argmax_def)
  qed
  with k have "k = 1"
    by (rule is_argmax_unique)
  with inf m show ?thesis
    by simp
qed

section \<open>Properties of get_test_transform\<close>

lemma round_half_le: "round_half n \<le> n"
  by (auto simp: round_half_def) presburger

lemma CenterCrop_size:
  "pil_width (CenterCrop n pic) = n \<and> pil_height (CenterCrop n pic) = n \<and>
   pil_bands (CenterCrop n pic) = pil_bands pic"
  by (simp add: CenterCrop_def Let_def pad_def crop_def)

lemma CenterCrop_px_large:
  assumes "n \<le> pil_width pic" and "n \<le> pil_height pic" and "i < n" and "j < n"
  shows "pil_px (CenterCrop n pic) i j c =
           pil_px pic (round_half (pil_height pic - n) + i) (round_half (pil_width pic - n) + j) c"
proof -
  have "round_half (pil_height pic - n) + i < pil_height pic"
    using round_half_le [of "pil_height pic - n"] assms by linarith
  moreover have "round_half (pil_width pic - n) + j < pil_width pic"
    using round_half_le [of "pil_width pic - n"] assms by linarith
  ultimately show ?thesis
    using assms by (simp add: CenterCrop_def Let_def crop_def)
qed

lemma ToTensor_has_shape:
  "has_shape [pil_bands pic, pil_height pic, pil_width pic] (ToTensor pic)"
  by (simp add: ToTensor_def list_all_iff)

lemma upt_3: "[0..<3] = [0, 1, 2]"
  by (simp add: upt_rec)

lemma get_test_transform_explicit:
  assumes "arr_channels pic = 3" and "0 < s"
  shows "\<exists>P R. ToPILImage pic = Inr P \<and> Resize resample (s, s) P = Inr R \<and>
           pil_height R = s \<and> pil_width R = s \<and> pil_px R = resample P (s, s) \<and>
           get_test_transform resample s pic =
             Inr (Tn (map (\<lambda>c. Tn (map (\<lambda>i. Tn (map (\<lambda>j.
               Sc ((real (unat (pil_px (CenterCrop 224 R) i j c)) / 255 - MEAN ! c) / STD ! c))
               [0..<224])) [0..<224])) [0..<3]))"
proof -
  define P where "P = \<lparr>pil_bands = 3, pil_width = arr_width pic, pil_height = length pic,
                pil_px = (\<lambda>i j c. pic ! i ! j ! c)\<rparr>"
  define R where "R = \<lparr>pil_bands = 3, pil_width = s, pil_height = s, pil_px = resample P (s, s)\<rparr>"
  define C where "C = CenterCrop 224 R"
  have P: "ToPILImage pic = Inr P"
    using assms(1) by (simp add: ToPILImage_def P_def)
  have R: "Resize resample (s, s) P = Inr R"
    using assms(2) by (simp add: Resize_def R_def P_def)
  have C: "pil_width C = 224" "pil_height C = 224" "pil_bands C = 3"
    using CenterCrop_size [of 224 R] by (simp_all add: C_def R_def)
  have "has_shape [3, 224, 224] (ToTensor C)"
    using ToTensor_has_shape [of C] by (simp add: C)
  then have sh: "shape (ToTensor C) = [3, 224, 224]"
    by (simp add: shape_of_has_shape)
  have "Normalize [0.485, 0.456, 0.406] [0.229, 0.224, 0.225] (ToTensor C) =
          Inr (Tn (map (\<lambda>c. Tn (map (\<lambda>i. Tn (map (\<lambda>j.
               Sc ((real (unat (pil_px C i j c)) / 255 - MEAN ! c) / STD ! c))
               [0..<224])) [0..<224])) [0..<3]))"
    by (simp add: Normalize_def ndim_def sh broadcast_def)
       (simp add: ToTensor_def C upt_3 MEAN_def STD_def)
  then have "get_test_transform resample s pic =
             Inr (Tn (map (\<lambda>c. Tn (map (\<lambda>i. Tn (map (\<lambda>j.
               Sc ((real (unat (pil_px (CenterCrop 224 R) i j c)) / 255 - MEAN ! c) / STD ! c))
               [0..<224])) [0..<224])) [0..<3]))"
    by (simp add: get_test_transform_def P R bindE_def C_def)
  moreover have "pil_height R = s \<and> pil_width R = s \<and> pil_px R = resample P (s, s)"
    by (simp add: R_def)
  ultimately show ?thesis
    using P R by blast
qed

lemma byte_unit_interval: "0 \<le> real (unat (b :: u8)) / 255 \<and> real (unat b) / 255 \<le> 1"
proof -
  have "unat b < 256"
    using unsigned_less [of b, where ?'a = nat] by simp
  then have "unat b \<le> 255"
    by simp
  then have "real (unat b) \<le> real 255"
    by (rule of_nat_mono)
  moreover have "0 \<le> real (unat b)"
    by (rule of_nat_0_le_iff)
  ultimately show ?thesis
    by simp
qed

lemma round_half_eq: "round_half n = (if n mod 4 = 3 then n div 2 + 1 else n div 2)"
  unfolding round_half_def by presburger

lemma CenterCrop_px_small:
  assumes "pil_width pic = s" and "pil_height pic = s" and "s < n"
  shows "pil_px (CenterCrop n pic) i j c =
           (if (n - s) div 2 \<le> i \<and> i < (n - s) div 2 + s \<and> (n - s) div 2 \<le> j \<and> j < (n - s) div 2 + s
            then pil_px pic (i - (n - s) div 2) (j - (n - s) div 2) c else 0)"
proof -
  have "s + (n - s) div 2 + (n - s + 1) div 2 = n"
    using assms(3) by presburger
  then show ?thesis
    using assms by (simp add: CenterCrop_def Let_def pad_def)
qed

text \<open>
  C6. For an array of three channels and a positive \<open>image_size\<close> the transform (1)
  resizes the image to exactly \<open>image_size\<close> by \<open>image_size\<close>, whatever its
  proportions were, (2) crops the centre to 224 by 224, (3) divides each byte by 255 and
  lays the result out channel-first, and (4) subtracts from channel \<open>c\<close> the mean and
  divides by the standard deviation of \<open>c\<close>, with means 0.485, 0.456, 0.406 and
  deviations 0.229, 0.224, 0.225. The centre is this: for \<open>image_size\<close> of at least 224
  the crop starts half the surplus \<open>image_size - 224\<close> in, both ways, a half pixel
  going to the even neighbour, so that the margins on opposite sides differ by one pixel
  at most; a smaller image is put in the middle of 224 by 224 zeros, half the missing
  pixels, rounded down, before it. \<^verbatim>\<open>ToPILImage\<close>, which comes first in the code,
  changes the container and not a pixel.
\<close>

theorem get_test_transform_steps:
  assumes "arr_channels pic = 3" and "0 < image_size"
  shows "\<exists>P R out. ToPILImage pic = Inr P \<and> Resize resample (image_size, image_size) P = Inr R \<and>
           pil_height R = image_size \<and> pil_width R = image_size \<and>
           pil_px R = resample P (image_size, image_size) \<and>
           pil_height (CenterCrop 224 R) = 224 \<and> pil_width (CenterCrop 224 R) = 224 \<and>
           (224 \<le> image_size \<longrightarrow>
              (let surplus = image_size - 224;
                   off = (if surplus mod 4 = 3 then surplus div 2 + 1 else surplus div 2)
               in 2 * off \<le> surplus + 1 \<and> surplus \<le> 2 * off + 1 \<and>
                  (\<forall>i<224. \<forall>j<224. \<forall>c.
                     pil_px (CenterCrop 224 R) i j c = pil_px R (off + i) (off + j) c))) \<and>
           (image_size < 224 \<longrightarrow>
              (let before = (224 - image_size) div 2
               in \<forall>i<224. \<forall>j<224. \<forall>c.
                    pil_px (CenterCrop 224 R) i j c =
                      (if before \<le> i \<and> i < before + image_size \<and> before \<le> j \<and> j < before + image_size
                       then pil_px R (i - before) (j - before) c else 0))) \<and>
           get_test_transform resample image_size pic = Inr out \<and> has_shape [3, 224, 224] out \<and>
           (\<forall>c<3. \<forall>i<224. \<forall>j<224.
              sub (sub (sub out c) i) j =
                Sc ((real (unat (pil_px (CenterCrop 224 R) i j c)) / 255 - [0.485, 0.456, 0.406] ! c)
                      / [0.229, 0.224, 0.225] ! c))"
proof -
  from get_test_transform_explicit [OF assms, of resample] obtain P R where
    P: "ToPILImage pic = Inr P" and R: "Resize resample (image_size, image_size) P = Inr R"
    and size: "pil_height R = image_size" "pil_width R = image_size"
    and px: "pil_px R = resample P (image_size, image_size)"
    and out: "get_test_transform resample image_size pic =
             Inr (Tn (map (\<lambda>c. Tn (map (\<lambda>i. Tn (map (\<lambda>j.
               Sc ((real (unat (pil_px (CenterCrop 224 R) i j c)) / 255 - MEAN ! c) / STD ! c))
               [0..<224])) [0..<224])) [0..<3]))"
    by blast
  define out' where "out' = Tn (map (\<lambda>c. Tn (map (\<lambda>i. Tn (map (\<lambda>j.
               Sc ((real (unat (pil_px (CenterCrop 224 R) i j c)) / 255 - MEAN ! c) / STD ! c))
               [0..<224])) [0..<224])) [0..<3])"
  have 1: "pil_height (CenterCrop 224 R) = 224 \<and> pil_width (CenterCrop 224 R) = 224"
    by (simp add: CenterCrop_size)
  have 2: "224 \<le> image_size \<longrightarrow>
              (let surplus = image_size - 224;
                   off = (if surplus mod 4 = 3 then surplus div 2 + 1 else surplus div 2)
               in 2 * off \<le> surplus + 1 \<and> surplus \<le> 2 * off + 1 \<and>
                  (\<forall>i<224. \<forall>j<224. \<forall>c.
                     pil_px (CenterCrop 224 R) i j c = pil_px R (off + i) (off + j) c))"
  proof
    assume big: "224 \<le> image_size"
    define surplus where "surplus = image_size - 224"
    define off where "off = (if surplus mod 4 = 3 then surplus div 2 + 1 else surplus div 2)"
    have off: "round_half (image_size - 224) = off"
      by (simp add: round_half_eq off_def surplus_def)
    have "2 * off \<le> surplus + 1 \<and> surplus \<le> 2 * off + 1"
      unfolding off_def by presburger
    moreover have "\<forall>i<224. \<forall>j<224. \<forall>c.
        pil_px (CenterCrop 224 R) i j c = pil_px R (off + i) (off + j) c"
      using CenterCrop_px_large [of 224 R] size big by (simp add: off)
    ultimately show "let surplus = image_size - 224;
                   off = (if surplus mod 4 = 3 then surplus div 2 + 1 else surplus div 2)
               in 2 * off \<le> surplus + 1 \<and> surplus \<le> 2 * off + 1 \<and>
                  (\<forall>i<224. \<forall>j<224. \<forall>c.
                     pil_px (CenterCrop 224 R) i j c = pil_px R (off + i) (off + j) c)"
      unfolding Let_def surplus_def [symmetric] off_def [symmetric] by blast
  qed
  have 3: "image_size < 224 \<longrightarrow>
              (let before = (224 - image_size) div 2
               in \<forall>i<224. \<forall>j<224. \<forall>c.
                    pil_px (CenterCrop 224 R) i j c =
                      (if before \<le> i \<and> i < before + image_size \<and> before \<le> j \<and> j < before + image_size
                       then pil_px R (i - before) (j - before) c else 0))"
    using CenterCrop_px_small [of R image_size 224] size by (simp add: Let_def)
  have 4: "has_shape [3, 224, 224] out'"
    by (simp add: out'_def list_all_iff)
  have 5: "\<forall>c<3. \<forall>i<224. \<forall>j<224.
              sub (sub (sub out' c) i) j =
                Sc ((real (unat (pil_px (CenterCrop 224 R) i j c)) / 255 - [0.485, 0.456, 0.406] ! c)
                      / [0.229, 0.224, 0.225] ! c)"
    by (simp add: out'_def MEAN_def STD_def)
  have 6: "get_test_transform resample image_size pic = Inr out'"
    by (simp add: out out'_def)
  from P R size px 1 2 3 4 5 6 show ?thesis
    by blast
qed

theorem get_test_transform_steps_witness:
  "arr_channels example_photo = 3 \<and> (0::nat) < 256 \<and> (0::nat) < 100 \<and>
   (\<exists>out. get_test_transform example_resample 256 example_photo = Inr out \<and>
      has_shape [3, 224, 224] out \<and>
      sub (sub (sub out 0) 0) 0 = Sc ((10 / 255 - 0.485) / 0.229) \<and>
      sub (sub (sub out 0) 0) 112 = Sc ((40 / 255 - 0.485) / 0.229) \<and>
      sub (sub (sub out 2) 0) 223 = Sc ((60 / 255 - 0.406) / 0.225)) \<and>
   (\<exists>out. get_test_transform example_resample 100 example_photo = Inr out \<and>
      has_shape [3, 224, 224] out \<and>
      sub (sub (sub out 0) 0) 0 = Sc ((0 / 255 - 0.485) / 0.229) \<and>
      sub (sub (sub out 0) 62) 62 = Sc ((10 / 255 - 0.485) / 0.229) \<and>
      sub (sub (sub out 1) 161) 161 = Sc ((50 / 255 - 0.456) / 0.224) \<and>
      sub (sub (sub out 1) 162) 162 = Sc ((0 / 255 - 0.456) / 0.224))"
proof -
  have a: "arr_channels example_photo = 3"
    by (simp add: arr_channels_def example_photo_def)
  have Pv: "P = \<lparr>pil_bands = 3, pil_width = 2, pil_height = 1, pil_px = (\<lambda>i j c. example_photo ! i ! j ! c)\<rparr>"
    if "ToPILImage example_photo = Inr P" for P
    using that by (auto simp: ToPILImage_def arr_channels_def arr_width_def example_photo_def)
  have big: "\<exists>out. get_test_transform example_resample 256 example_photo = Inr out \<and>
      has_shape [3, 224, 224] out \<and>
      sub (sub (sub out 0) 0) 0 = Sc ((10 / 255 - 0.485) / 0.229) \<and>
      sub (sub (sub out 0) 0) 112 = Sc ((40 / 255 - 0.485) / 0.229) \<and>
      sub (sub (sub out 2) 0) 223 = Sc ((60 / 255 - 0.406) / 0.225)"
  proof -
    from get_test_transform_steps [OF a, of 256 example_resample] obtain P R out where
      P: "ToPILImage example_photo = Inr P"
      and Rv: "pil_px R = example_resample P (256, 256)"
      and px: "\<forall>i<224. \<forall>j<224. \<forall>c. pil_px (CenterCrop 224 R) i j c = pil_px R (16 + i) (16 + j) c"
      and out: "get_test_transform example_resample 256 example_photo = Inr out" "has_shape [3, 224, 224] out"
      and el: "\<forall>c<3. \<forall>i<224. \<forall>j<224.
                sub (sub (sub out c) i) j =
                  Sc ((real (unat (pil_px (CenterCrop 224 R) i j c)) / 255 - [0.485, 0.456, 0.406] ! c)
                        / [0.229, 0.224, 0.225] ! c)"
      by (auto simp: Let_def)
    have p1: "pil_px (CenterCrop 224 R) 0 0 0 = 10"
      using px by (simp add: Rv example_resample_def Pv [OF P] example_photo_def)
    have p2: "pil_px (CenterCrop 224 R) 0 112 0 = 40"
      using px by (simp add: Rv example_resample_def Pv [OF P] example_photo_def)
    have p3: "pil_px (CenterCrop 224 R) 0 223 2 = 60"
      using px by (simp add: Rv example_resample_def Pv [OF P] example_photo_def)
    have "sub (sub (sub out 0) 0) 0 = Sc ((10 / 255 - 0.485) / 0.229)"
      using el p1 by simp
    moreover have "sub (sub (sub out 0) 0) 112 = Sc ((40 / 255 - 0.485) / 0.229)"
      using el p2 by simp
    moreover have "sub (sub (sub out 2) 0) 223 = Sc ((60 / 255 - 0.406) / 0.225)"
      using el p3 by simp
    ultimately show ?thesis
      using out by blast
  qed
  have small: "\<exists>out. get_test_transform example_resample 100 example_photo = Inr out \<and>
      has_shape [3, 224, 224] out \<and>
      sub (sub (sub out 0) 0) 0 = Sc ((0 / 255 - 0.485) / 0.229) \<and>
      sub (sub (sub out 0) 62) 62 = Sc ((10 / 255 - 0.485) / 0.229) \<and>
      sub (sub (sub out 1) 161) 161 = Sc ((50 / 255 - 0.456) / 0.224) \<and>
      sub (sub (sub out 1) 162) 162 = Sc ((0 / 255 - 0.456) / 0.224)"
  proof -
    from get_test_transform_steps [OF a, of 100 example_resample] obtain P R out where
      P: "ToPILImage example_photo = Inr P"
      and Rv: "pil_px R = example_resample P (100, 100)"
      and px: "\<forall>i<224. \<forall>j<224. \<forall>c. pil_px (CenterCrop 224 R) i j c =
                 (if 62 \<le> i \<and> i < 162 \<and> 62 \<le> j \<and> j < 162 then pil_px R (i - 62) (j - 62) c else 0)"
      and out: "get_test_transform example_resample 100 example_photo = Inr out" "has_shape [3, 224, 224] out"
      and el: "\<forall>c<3. \<forall>i<224. \<forall>j<224.
                sub (sub (sub out c) i) j =
                  Sc ((real (unat (pil_px (CenterCrop 224 R) i j c)) / 255 - [0.485, 0.456, 0.406] ! c)
                        / [0.229, 0.224, 0.225] ! c)"
      by (auto simp: Let_def)
    have p1: "pil_px (CenterCrop 224 R) 0 0 0 = 0"
      using px by simp
    have p2: "pil_px (CenterCrop 224 R) 62 62 0 = 10"
      using px by (simp add: Rv example_resample_def Pv [OF P] example_photo_def)
    have p3: "pil_px (CenterCrop 224 R) 161 161 1 = 50"
      using px by (simp add: Rv example_resample_def Pv [OF P] example_photo_def)
    have p4: "pil_px (CenterCrop 224 R) 162 162 1 = 0"
      using px by simp
    have "sub (sub (sub out 0) 0) 0 = Sc ((0 / 255 - 0.485) / 0.229)"
      using el p1 by simp
    moreover have "sub (sub (sub out 0) 62) 62 = Sc ((10 / 255 - 0.485) / 0.229)"
      using el p2 by simp
    moreover have "sub (sub (sub out 1) 161) 161 = Sc ((50 / 255 - 0.456) / 0.224)"
      using el p3 by simp
    moreover have "sub (sub (sub out 1) 162) 162 = Sc ((0 / 255 - 0.456) / 0.224)"
      using el p4 by simp
    ultimately show ?thesis
      using out by blast
  qed
  from a big small show ?thesis
    by simp
qed

text \<open>
  C5. With the driver's resize dimension \<open>IMAGE_RESIZE\<close> the transform returns, for
  every array of three channels, a tensor of shape 3 by 224 by 224 in which every value
  of channel \<open>c\<close> lies between \<open>(0 - mean[c]) / std[c]\<close> and
  \<open>(1 - mean[c]) / std[c]\<close>. (Values are reals here, so each of them is finite.)
\<close>

theorem transform_output_shape_and_range:
  assumes "arr_channels pic = 3"
  shows "\<exists>out. get_test_transform resample IMAGE_RESIZE pic = Inr out \<and> has_shape [3, 224, 224] out \<and>
           (\<forall>c<3. list_all (\<lambda>v. (0 - MEAN ! c) / STD ! c \<le> v \<and> v \<le> (1 - MEAN ! c) / STD ! c)
                     (elems (sub out c)))"
proof -
  have "0 < IMAGE_RESIZE"
    by (simp add: IMAGE_RESIZE_def)
  from get_test_transform_explicit [OF assms this, of resample] obtain R where
    out: "get_test_transform resample IMAGE_RESIZE pic =
             Inr (Tn (map (\<lambda>c. Tn (map (\<lambda>i. Tn (map (\<lambda>j.
               Sc ((real (unat (pil_px (CenterCrop 224 R) i j c)) / 255 - MEAN ! c) / STD ! c))
               [0..<224])) [0..<224])) [0..<3]))"
    by blast
  define out' where "out' = Tn (map (\<lambda>c. Tn (map (\<lambda>i. Tn (map (\<lambda>j.
               Sc ((real (unat (pil_px (CenterCrop 224 R) i j c)) / 255 - MEAN ! c) / STD ! c))
               [0..<224])) [0..<224])) [0..<3])"
  have sh: "has_shape [3, 224, 224] out'"
    by (simp add: out'_def list_all_iff)
  have std: "0 < STD ! c" if "c < 3" for c
    using that by (auto simp: STD_def less_Suc_eq numeral_3_eq_3)
  have rng: "list_all (\<lambda>v. (0 - MEAN ! c) / STD ! c \<le> v \<and> v \<le> (1 - MEAN ! c) / STD ! c)
                     (elems (sub out' c))" if "c < 3" for c
  proof -
    have "(0 - MEAN ! c) / STD ! c \<le> (real (unat b) / 255 - MEAN ! c) / STD ! c \<and>
          (real (unat b) / 255 - MEAN ! c) / STD ! c \<le> (1 - MEAN ! c) / STD ! c" for b :: u8
    proof -
      have s: "0 \<le> STD ! c"
        using std [OF that] by simp
      have "0 - MEAN ! c \<le> real (unat b) / 255 - MEAN ! c"
        using byte_unit_interval [of b] by simp
      moreover have "real (unat b) / 255 - MEAN ! c \<le> 1 - MEAN ! c"
        using byte_unit_interval [of b] by simp
      ultimately show ?thesis
        using s by (blast intro: divide_right_mono)
    qed
    then show ?thesis
      using that by (auto simp: out'_def list_all_iff)
  qed
  from out sh rng show ?thesis
    unfolding out'_def by blast
qed

theorem transform_output_shape_and_range_witness:
  "arr_channels example_photo = 3 \<and>
   (\<exists>out. get_test_transform example_resample IMAGE_RESIZE example_photo = Inr out \<and>
      has_shape [3, 224, 224] out \<and>
      list_all (\<lambda>v. (0 - 0.485) / 0.229 \<le> v \<and> v \<le> (1 - 0.485) / 0.229) (elems (sub out 0)) \<and>
      list_all (\<lambda>v. (0 - 0.456) / 0.224 \<le> v \<and> v \<le> (1 - 0.456) / 0.224) (elems (sub out 1)) \<and>
      list_all (\<lambda>v. (0 - 0.406) / 0.225 \<le> v \<and> v \<le> (1 - 0.406) / 0.225) (elems (sub out 2)))"
proof -
  have a: "arr_channels example_photo = 3"
    by (simp add: arr_channels_def example_photo_def)
  from transform_output_shape_and_range [OF a, of example_resample] obtain out where
    out: "get_test_transform example_resample IMAGE_RESIZE example_photo = Inr out"
      "has_shape [3, 224, 224] out"
    and rng: "\<forall>c<3. list_all (\<lambda>v. (0 - MEAN ! c) / STD ! c \<le> v \<and> v \<le> (1 - MEAN ! c) / STD ! c)
                     (elems (sub out c))"
    by blast
  from rng have "list_all (\<lambda>v. (0 - MEAN ! 0) / STD ! 0 \<le> v \<and> v \<le> (1 - MEAN ! 0) / STD ! 0) (elems (sub out 0))"
    "list_all (\<lambda>v. (0 - MEAN ! 1) / STD ! 1 \<le> v \<and> v \<le> (1 - MEAN ! 1) / STD ! 1) (elems (sub out 1))"
    "list_all (\<lambda>v. (0 - MEAN ! 2) / STD ! 2 \<le> v \<and> v \<le> (1 - MEAN ! 2) / STD ! 2) (elems (sub out 2))"
    by simp_all
  then have "list_all (\<lambda>v. (0 - 0.485) / 0.229 \<le> v \<and> v \<le> (1 - 0.485) / 0.229) (elems (sub out 0))"
    "list_all (\<lambda>v. (0 - 0.456) / 0.224 \<le> v \<and> v \<le> (1 - 0.456) / 0.224) (elems (sub out 1))"
    "list_all (\<lambda>v. (0 - 0.406) / 0.225 \<le> v \<and> v \<le> (1 - 0.406) / 0.225) (elems (sub out 2))"
    by (simp_all add: MEAN_def STD_def)
  with a out show ?thesis
    by blast
qed

section \<open>Properties of the driver\<close>

lemma infer_result_path_eq:
  "path_join (path_join (path_join ''..'' ''outputs'') ''inference_results'') ''image_outputs''
     = ''../outputs/inference_results/image_outputs''"
  by (simp add: path_join_def)

text \<open>
  Whatever happens to the checkpoint, a run in which the glob matches nothing makes the
  output directory, writes no file and calls \<open>inference\<close> not once.
\<close>

lemma driver_no_images_any_setup:
  assumes "glob_glob env (path_join (args_input args) ''*.jpg'') = []"
  shows "made_dirs (fst (driver env args w)) = made_dirs w @ [''../outputs/inference_results/image_outputs''] \<and>
         written (fst (driver env args w)) = written w \<and>
         inference_calls (fst (driver env args w)) = inference_calls w"
  using assms unfolding driver_def infer_result_path_eq
  by (simp add: Let_def split: sum.splits option.splits)

text \<open>
  The loop does count and write: one path whose image loads and whose inference
  succeeds adds one call, one shown image and one written file.
\<close>

lemma process_images_one:
  assumes "load_image env path = Inr img"
    and "inference (class_names env) (cv2_raster env) model img = Inr result"
  shows "process_images env model dir i [path] w =
           (w\<lparr>printed := printed w @ [i + 1], inference_calls := Suc (inference_calls w),
              shown := shown w @ [result],
              written := written w @ [(path_join dir (last_component path), tmap (\<lambda>v. v * 255) result)]\<rparr>,
            None)"
  using assms by (simp add: Let_def)

text \<open>
  C8. When no file of the input directory matches \<^verbatim>\<open>*.jpg\<close> and the checkpoint has
  been loaded into the network, the driver ends without an error, having made the output
  directory and nothing else: no file written, no image shown, no line printed, no call
  of \<open>inference\<close>.
\<close>

theorem driver_no_images:
  assumes "glob_glob env (path_join (args_input args) ''*.jpg'') = []"
    and "torch_load env (args_weights args) = Inr checkpoint"
    and "checkpoint ''model_state_dict'' = Some sd"
    and "load_state_dict env (build_model env False (length (class_names env))) sd = Inr model"
  shows "\<exists>w'. driver env args w = (w', None) \<and>
           made_dirs w' = made_dirs w @ [''../outputs/inference_results/image_outputs''] \<and>
           written w' = written w \<and> inference_calls w' = inference_calls w \<and>
           shown w' = shown w \<and> printed w' = printed w"
  using assms unfolding driver_def infer_result_path_eq by (simp add: Let_def)

theorem driver_no_images_witness:
  "glob_glob example_env (path_join (args_input example_args) ''*.jpg'') = [] \<and>
   driver example_env example_args initial_world =
     (\<lparr>made_dirs = [''../outputs/inference_results/image_outputs''], printed = [], shown = [],
       written = [], inference_calls = 0\<rparr>, None)"
proof -
  have g: "glob_glob example_env (path_join (args_input example_args) ''*.jpg'') = []"
    by (simp add: example_env_def)
  have t: "torch_load example_env (args_weights example_args) = Inr [''model_state_dict'' \<mapsto> ()]"
    by (simp add: example_env_def example_args_def)
  have k: "[''model_state_dict'' \<mapsto> ()] ''model_state_dict'' = Some ()"
    by simp
  have l: "load_state_dict example_env (build_model example_env False (length (class_names example_env))) () = Inr example_model"
    by (simp add: example_env_def)
  from driver_no_images [OF g t k l, of initial_world] obtain w' where
    "driver example_env example_args initial_world = (w', None)"
    "made_dirs w' = made_dirs initial_world @ [''../outputs/inference_results/image_outputs'']"
    "written w' = written initial_world" "inference_calls w' = inference_calls initial_world"
    "shown w' = shown initial_world" "printed w' = printed initial_world"
    by blast
  then have "driver example_env example_args initial_world =
     (\<lparr>made_dirs = [''../outputs/inference_results/image_outputs''], printed = [], shown = [],
       written = [], inference_calls = 0\<rparr>, None)"
    by (cases w') (simp add: initial_world_def)
  with g show ?thesis
    by blast
qed

end
